theory Spec2Isabelle
  imports Main
begin

section \<open>Python values\<close>

text \<open>
  The values a field of a job dictionary holds after \<^verbatim>\<open>json.loads\<close>: null, a boolean,
  an integer or a string. Nested arrays and objects and floating-point numbers as field
  values are not part of this model.
\<close>

datatype pyval = PNone | PBool bool | PInt int | PStr string

datatype py_error = TypeError | DuplicateKey | RowDoesNotExist | CellDoesNotExist

text \<open>Truth value of an object, as \<^verbatim>\<open>if reason\<close> tests it.\<close>

fun truthy :: "pyval \<Rightarrow> bool" where
  "truthy PNone = False"
| "truthy (PBool b) = b"
| "truthy (PInt i) = (i \<noteq> 0)"
| "truthy (PStr s) = (s \<noteq> [])"

text \<open>The operand of \<^verbatim>\<open>now - start_time\<close>: integers and booleans subtract, the rest raise.\<close>

fun as_int :: "pyval \<Rightarrow> int option" where
  "as_int (PInt i) = Some i"
| "as_int (PBool b) = Some (if b then 1 else 0)"
| "as_int PNone = None"
| "as_int (PStr s) = None"

definition digit_char :: "nat \<Rightarrow> char" where
  "digit_char n = ''0123456789'' ! n"

fun str_nat :: "nat \<Rightarrow> string" where
  "str_nat n = (if n < 10 then [digit_char n] else str_nat (n div 10) @ [digit_char (n mod 10)])"

declare str_nat.simps [simp del]

text \<open>\<^verbatim>\<open>str(i)\<close> and the format \<^verbatim>\<open>{i}\<close> of an integer.\<close>

definition str_int :: "int \<Rightarrow> string" where
  "str_int i = (if i < 0 then CHR ''-'' # str_nat (nat (- i)) else str_nat (nat i))"

text \<open>The format \<^verbatim>\<open>{i:02d}\<close>: zero-padded to width two, the sign counted in the width.\<close>

definition fmt_02d :: "int \<Rightarrow> string" where
  "fmt_02d i = (if 0 \<le> i \<and> i < 10 then CHR ''0'' # str_int i else str_int i)"

fun py_str :: "pyval \<Rightarrow> string" where
  "py_str PNone = ''None''"
| "py_str (PBool b) = (if b then ''True'' else ''False'')"
| "py_str (PInt i) = str_int i"
| "py_str (PStr s) = s"

section \<open>Elapsed time of a job\<close>

text \<open>
  \<^verbatim>\<open>SltopApp.format_time_used\<close>. The reading of \<^verbatim>\<open>int(time.time())\<close> is the first
  argument. The source computes \<^verbatim>\<open>m, s = divmod(diff, 60)\<close>, \<^verbatim>\<open>h, m = divmod(m, 60)\<close>,
  \<^verbatim>\<open>d, h = divmod(h, 24)\<close>; the rebound names are \<open>m1\<close>, \<open>h1\<close> here.
\<close>

definition format_time_used :: "int \<Rightarrow> pyval \<Rightarrow> pyval \<Rightarrow> py_error + string" where
  "format_time_used now start_time state =
     (if state \<noteq> PStr ''RUNNING'' then Inr ''0:00''
      else case as_int start_time of
        None \<Rightarrow> Inl TypeError
      | Some st \<Rightarrow>
          (let diff = now - st in
           if diff < 0 then Inr ''0:00''
           else
             (let m1 = diff div 60; s = diff mod 60;
                  h1 = m1 div 60; m = m1 mod 60;
                  d = h1 div 24; h = h1 mod 24
              in if d > 0 then
                   Inr (str_int d @ ''-'' @ fmt_02d h @ '':'' @ fmt_02d m @ '':'' @ fmt_02d s)
                 else if h > 0 then
                   Inr (str_int h @ '':'' @ fmt_02d m @ '':'' @ fmt_02d s)
                 else
                   Inr (str_int m @ '':'' @ fmt_02d s))))"

text \<open>
  The spec's wording of the format, for comparison with the code: an elapsed time of
  \<open>e\<close> seconds is written \<open>D-HH:MM:SS\<close> when it reaches a day, \<open>H:MM:SS\<close> when it
  reaches an hour, and \<open>M:SS\<close> otherwise.
\<close>

definition spec_elapsed :: "int \<Rightarrow> string" where
  "spec_elapsed e =
     (let days = e div 86400; hours = (e div 3600) mod 24;
          minutes = (e div 60) mod 60; seconds = e mod 60
      in if 86400 \<le> e then
           str_int days @ ''-'' @ fmt_02d hours @ '':'' @ fmt_02d minutes @ '':'' @ fmt_02d seconds
         else if 3600 \<le> e then
           str_int hours @ '':'' @ fmt_02d minutes @ '':'' @ fmt_02d seconds
         else
           str_int minutes @ '':'' @ fmt_02d seconds)"

section \<open>Job dictionaries\<close>

text \<open>
  A job is a \<^verbatim>\<open>Dict[str, Any]\<close>; \<^verbatim>\<open>job.get(key, default)\<close> is \<open>dict_get\<close>.
\<close>

type_synonym job = "string \<rightharpoonup> pyval"

definition dict_get :: "job \<Rightarrow> string \<Rightarrow> pyval \<Rightarrow> pyval" where
  "dict_get d k dflt = (case d k of None \<Rightarrow> dflt | Some v \<Rightarrow> v)"

definition job_key :: "job \<Rightarrow> string" where
  "job_key j = py_str (dict_get j ''job_id'' (PStr ''''))"

definition job_state :: "job \<Rightarrow> pyval" where
  "job_state j = dict_get j ''job_state'' (PStr '''')"

text \<open>\<^verbatim>\<open>state in ["CANCELLED", "COMPLETED", "FAILED", "TIMEOUT"]\<close>\<close>

definition is_terminal :: "pyval \<Rightarrow> bool" where
  "is_terminal state =
     (state \<in> set [PStr ''CANCELLED'', PStr ''COMPLETED'', PStr ''FAILED'', PStr ''TIMEOUT''])"

text \<open>The last column: the reason in parentheses for a pending job, the node list otherwise.\<close>

definition last_col :: "job \<Rightarrow> pyval" where
  "last_col j =
     (let nodes = dict_get j ''nodes'' (PStr '''');
          reason = dict_get j ''job_reason'' (PStr '''')
      in if job_state j = PStr ''PENDING'' then
           (if truthy reason then PStr (''('' @ py_str reason @ '')'') else PStr ''(PENDING)'')
         else nodes)"

definition job_id_display :: "string set \<Rightarrow> string \<Rightarrow> string" where
  "job_id_display selected job_id =
     (if job_id \<in> selected then ''[bold green]* '' @ job_id @ ''[/]'' else job_id)"

section \<open>The table widget\<close>

text \<open>
  The table is a widget of the user-interface library, outside the repository. The model
  keeps what the source relies on: the rows in order, each under its key, and the row of
  the cursor. \<open>clear\<close> empties the rows and puts the cursor back on row 0; \<open>add_row\<close>
  appends a row and refuses a key that is already there; \<open>get_row_index\<close> raises for an
  unknown key; \<open>cursor_row_key\<close> is
  \<^verbatim>\<open>coordinate_to_cell_key(cursor_coordinate).row_key\<close>, which raises when no row is
  under the cursor.
\<close>

type_synonym row = "string \<times> pyval list"

record data_table =
  rows :: "row list"
  cursor_row :: nat

definition row_count :: "data_table \<Rightarrow> nat" where
  "row_count t = length (rows t)"

definition cursor_row_key :: "data_table \<Rightarrow> py_error + string" where
  "cursor_row_key t =
     (if cursor_row t < length (rows t) then Inr (fst (rows t ! cursor_row t))
      else Inl CellDoesNotExist)"

definition clear :: "data_table \<Rightarrow> data_table" where
  "clear t = t\<lparr>rows := [], cursor_row := 0\<rparr>"

definition add_row :: "pyval list \<Rightarrow> string \<Rightarrow> data_table \<Rightarrow> py_error + data_table" where
  "add_row cells key t =
     (if key \<in> set (map fst (rows t)) then Inl DuplicateKey
      else Inr (t\<lparr>rows := rows t @ [(key, cells)]\<rparr>))"

fun index_of :: "string \<Rightarrow> row list \<Rightarrow> nat option" where
  "index_of k [] = None"
| "index_of k (r # rs) =
     (if fst r = k then Some 0
      else case index_of k rs of None \<Rightarrow> None | Some i \<Rightarrow> Some (Suc i))"

definition get_row_index :: "data_table \<Rightarrow> string \<Rightarrow> py_error + nat" where
  "get_row_index t k = (case index_of k (rows t) of None \<Rightarrow> Inl RowDoesNotExist | Some i \<Rightarrow> Inr i)"

definition move_cursor :: "nat \<Rightarrow> data_table \<Rightarrow> data_table" where
  "move_cursor i t = t\<lparr>cursor_row := i\<rparr>"

text \<open>The cells of a row, by column.\<close>

definition row_state :: "row \<Rightarrow> pyval" where
  "row_state r = snd r ! 3"

definition row_placement :: "row \<Rightarrow> pyval" where
  "row_placement r = snd r ! 5"

definition row_id_cell :: "row \<Rightarrow> pyval" where
  "row_id_cell r = snd r ! 0"

section \<open>External processes\<close>

text \<open>
  What the environment answers to a subprocess call: the launch (or the wait) raises, or
  the process exits with a return code, its standard error and its standard output.
  \<open>decoded\<close> is the outcome of \<^verbatim>\<open>stderr.decode()\<close>. For the job query the standard
  output is given by what \<^verbatim>\<open>json.loads(stdout.decode())\<close> makes of it: it raises, it
  gives a value that has no \<^verbatim>\<open>get\<close> (not an object), or it gives an object, with the
  value under \<^verbatim>\<open>"jobs"\<close> when that key is present. Following the annotation
  \<^verbatim>\<open>List[Dict[str, Any]]\<close> of \<open>get_jobs\<close>, that value is a list of job dictionaries.
  The strings carried by the failures are the texts of the exceptions.
\<close>

datatype decoded = Undecodable string | Text string

datatype 'o proc_result = LaunchError string | Exited int decoded 'o

datatype squeue_stdout = Unparseable string | NotObject string | Object "job list option"

datatype severity = Information | Error

datatype effect = Exec "string list" | LogError string | Notify string severity

section \<open>The application state\<close>

text \<open>
  A worker in flight is suspended at its \<^verbatim>\<open>await\<close>: a \<open>refresh_jobs\<close> worker in
  \<open>get_jobs\<close>, a \<open>do_kill_jobs\<close> worker in \<open>cancel_jobs\<close> or, after a successful cancel, in
  the \<open>get_jobs\<close> of its own call of \<open>refresh_jobs_async\<close>.
\<close>

datatype worker = Refresh_jobs | Kill_cancel "string list" | Kill_refresh "string list"

record app =
  user :: string
  selected_jobs :: "string set"
  table :: data_table
  workers :: "worker list"
  effects :: "effect list"
  failures :: "py_error list"

definition emit :: "effect list \<Rightarrow> app \<Rightarrow> app" where
  "emit es s = s\<lparr>effects := effects s @ es\<rparr>"

section \<open>JobManager\<close>

definition squeue_cmd :: "string \<Rightarrow> string list" where
  "squeue_cmd u = [''squeue'', ''-u'', u, ''--json'']"

text \<open>
  \<open>get_jobs\<close> up to its \<^verbatim>\<open>await\<close> (the process is started), and from there on. The
  body of the \<^verbatim>\<open>try\<close> is \<open>get_jobs_body\<close>, \<open>Inl\<close> when it raises; \<open>get_jobs_return\<close>
  adds the handler.
\<close>

definition get_jobs_launch :: "app \<Rightarrow> app" where
  "get_jobs_launch s = emit [Exec (squeue_cmd (user s))] s"

definition get_jobs_body :: "squeue_stdout proc_result \<Rightarrow> string + (job list \<times> effect list)" where
  "get_jobs_body r =
     (case r of
        LaunchError e \<Rightarrow> Inl e
      | Exited returncode err out \<Rightarrow>
          if returncode \<noteq> 0 then
            (case err of
               Undecodable e \<Rightarrow> Inl e
             | Text t \<Rightarrow> Inr ([], [LogError (''squeue error: '' @ t)]))
          else
            (case out of
               Unparseable e \<Rightarrow> Inl e
             | NotObject e \<Rightarrow> Inl e
             | Object None \<Rightarrow> Inr ([], [])
             | Object (Some jobs) \<Rightarrow> Inr (jobs, [])))"

definition get_jobs_return :: "squeue_stdout proc_result \<Rightarrow> job list \<times> effect list" where
  "get_jobs_return r =
     (case get_jobs_body r of
        Inl e \<Rightarrow> ([], [LogError (''Failed to fetch jobs: '' @ e)])
      | Inr v \<Rightarrow> v)"

text \<open>\<open>cancel_jobs\<close> after its \<^verbatim>\<open>await\<close>, for a non-empty list of ids.\<close>

definition cancel_jobs_return :: "unit proc_result \<Rightarrow> bool \<times> effect list" where
  "cancel_jobs_return r =
     (case r of
        LaunchError e \<Rightarrow> (False, [LogError (''Failed to cancel jobs: '' @ e)])
      | Exited returncode err out \<Rightarrow>
          if returncode \<noteq> 0 then
            (case err of
               Undecodable e \<Rightarrow> (False, [LogError (''Failed to cancel jobs: '' @ e)])
             | Text t \<Rightarrow> (False, [LogError (''scancel error: '' @ t)]))
          else (True, []))"

section \<open>The refresh cycle\<close>

text \<open>
  One turn of the loop of \<open>refresh_jobs_async\<close>, for one job and the clock reading of
  its call of \<open>format_time_used\<close>. The elapsed time is computed before the filter, so a
  job whose start time does not subtract raises here whatever comes after; \<open>Inr\<close> with
  the table as it was is the \<^verbatim>\<open>continue\<close> of a filtered job.
\<close>

definition add_job :: "string set \<Rightarrow> int \<Rightarrow> job \<Rightarrow> data_table \<Rightarrow> py_error + data_table" where
  "add_job selected now j t =
     (let job_id = job_key j;
          partition = dict_get j ''partition'' (PStr '''');
          name = dict_get j ''name'' (PStr '''');
          state = job_state j;
          start_time = dict_get j ''start_time'' (PInt 0)
      in case format_time_used now start_time state of
           Inl e \<Rightarrow> Inl e
         | Inr time_used \<Rightarrow>
             if is_terminal state then Inr t
             else add_row [PStr (job_id_display selected job_id), partition, name, state,
                           PStr time_used, last_col j] job_id t)"

text \<open>
  The loop over the snapshot. An exception leaves the loop with the table as the rows
  added so far made it.
\<close>

fun add_jobs :: "string set \<Rightarrow> (int \<times> job) list \<Rightarrow> data_table \<Rightarrow> py_error option \<times> data_table" where
  "add_jobs selected [] t = (None, t)"
| "add_jobs selected (nj # rest) t =
     (case add_job selected (fst nj) (snd nj) t of
        Inl e \<Rightarrow> (Some e, t)
      | Inr t' \<Rightarrow> add_jobs selected rest t')"

text \<open>
  The clock is read anew for each job: \<open>clock i\<close> is the reading at the \<open>i\<close>-th job of
  the snapshot.
\<close>

definition stamp :: "(nat \<Rightarrow> int) \<Rightarrow> job list \<Rightarrow> (int \<times> job) list" where
  "stamp clock jobs = zip (map clock [0..<length jobs]) jobs"

text \<open>
  \<open>refresh_jobs_async\<close> from the return of the job query on; nothing in it awaits, so it
  runs in one piece. The result is the exception that left it, if any, and the state.
\<close>

text \<open>
  The key under the cursor before the table is cleared; the \<^verbatim>\<open>try\<close> around the lookup
  leaves it \<^verbatim>\<open>None\<close> when the lookup raises. A row key is an object of the library and
  counts as true in \<^verbatim>\<open>if current_row_key\<close> whatever string it holds.
\<close>

definition current_row_key :: "data_table \<Rightarrow> string option" where
  "current_row_key t =
     (if row_count t > 0 then
        (case cursor_row_key t of Inl e \<Rightarrow> None | Inr k \<Rightarrow> Some k)
      else None)"

definition restore_cursor :: "string option \<Rightarrow> data_table \<Rightarrow> data_table" where
  "restore_cursor key t =
     (case key of
        None \<Rightarrow> t
      | Some k \<Rightarrow> (case get_row_index t k of Inl e \<Rightarrow> t | Inr row_index \<Rightarrow> move_cursor row_index t))"

definition refresh_jobs_async_resume ::
    "squeue_stdout proc_result \<Rightarrow> (nat \<Rightarrow> int) \<Rightarrow> app \<Rightarrow> py_error option \<times> app" where
  "refresh_jobs_async_resume r clock s =
     (let (jobs, logged) = get_jobs_return r;
          s1 = emit logged s;
          key = current_row_key (table s1);
          (err, t) = add_jobs (selected_jobs s1) (stamp clock jobs) (clear (table s1))
      in case err of
           Some e \<Rightarrow> (Some e, s1\<lparr>table := t\<rparr>)
         | None \<Rightarrow> (None, s1\<lparr>table := restore_cursor key t\<rparr>))"

section \<open>Workers\<close>

text \<open>
  \<open>refresh_jobs\<close> is declared \<^verbatim>\<open>@work(exclusive=True)\<close>. What the decorator does with a
  trigger that arrives during a cycle is decided by the library, not by the repository,
  so it is a parameter: the trigger is dropped (the spec's reading), or the workers in
  flight are cancelled and a new one is started (the library's description of the
  option: cancel all workers in the same group; every worker of the application is in
  the default group).
\<close>

datatype exclusive = Drop_trigger | Cancel_group

definition refresh_jobs :: "exclusive \<Rightarrow> app \<Rightarrow> app" where
  "refresh_jobs pol s =
     (case pol of
        Drop_trigger \<Rightarrow>
          if Refresh_jobs \<in> set (workers s) then s
          else get_jobs_launch (s\<lparr>workers := workers s @ [Refresh_jobs]\<rparr>)
      | Cancel_group \<Rightarrow> get_jobs_launch (s\<lparr>workers := [Refresh_jobs]\<rparr>))"

definition action_toggle_select :: "exclusive \<Rightarrow> app \<Rightarrow> app" where
  "action_toggle_select pol s =
     (case cursor_row_key (table s) of
        Inl e \<Rightarrow> s
      | Inr job_id \<Rightarrow>
          refresh_jobs pol
            (s\<lparr>selected_jobs :=
                 (if job_id \<in> selected_jobs s then selected_jobs s - {job_id}
                  else insert job_id (selected_jobs s))\<rparr>))"

definition action_refresh_now :: "exclusive \<Rightarrow> app \<Rightarrow> app" where
  "action_refresh_now pol s = refresh_jobs pol s"

definition remove_at :: "nat \<Rightarrow> 'a list \<Rightarrow> 'a list" where
  "remove_at i xs = take i xs @ drop (Suc i) xs"

definition finish :: "nat \<Rightarrow> py_error option \<times> app \<Rightarrow> app" where
  "finish i res =
     (let s = snd res in
      s\<lparr>workers := remove_at i (workers s),
        failures := failures s @ (case fst res of None \<Rightarrow> [] | Some e \<Rightarrow> [e])\<rparr>)"

text \<open>
  \<open>do_kill_jobs\<close> is a plain \<^verbatim>\<open>@work\<close>. With no ids \<open>cancel_jobs\<close> returns \<^verbatim>\<open>False\<close>
  before any process is started and the worker ends at once; otherwise it waits for the
  cancel command, and \<open>do_kill_jobs_resume\<close> is what it does when the command returns.
\<close>

definition do_kill_jobs :: "string list \<Rightarrow> app \<Rightarrow> app" where
  "do_kill_jobs job_ids s =
     (if job_ids = [] then emit [Notify ''Failed to cancel some jobs.'' Error] s
      else emit [Exec (''scancel'' # job_ids)] (s\<lparr>workers := workers s @ [Kill_cancel job_ids]\<rparr>))"

definition do_kill_jobs_resume :: "nat \<Rightarrow> string list \<Rightarrow> unit proc_result \<Rightarrow> app \<Rightarrow> app" where
  "do_kill_jobs_resume i job_ids r s =
     (let (success, logged) = cancel_jobs_return r;
          s1 = emit logged s
      in if success then
           get_jobs_launch
             ((emit [Notify (''Cancelled '' @ str_int (int (length job_ids)) @ '' jobs.'') Information] s1)
                \<lparr>selected_jobs := {}, workers := (workers s1)[i := Kill_refresh job_ids]\<rparr>)
         else
           (emit [Notify ''Failed to cancel some jobs.'' Error] s1)
             \<lparr>workers := remove_at i (workers s1)\<rparr>)"

section \<open>The event loop\<close>

text \<open>
  The control flow is single-threaded and cooperative: between two suspension points a
  handler runs alone. An event is a refresh trigger (the timer, the refresh key), a key
  binding, a confirmed kill, or the return of the external command a worker waits for
  (the worker is named by its position among the workers in flight).
\<close>

datatype event =
    Trigger
  | Toggle
  | Kill "string list"
  | Squeue_done nat "squeue_stdout proc_result" "nat \<Rightarrow> int"
  | Scancel_done nat "unit proc_result"

fun step :: "exclusive \<Rightarrow> event \<Rightarrow> app \<Rightarrow> app" where
  "step pol Trigger s = refresh_jobs pol s"
| "step pol Toggle s = action_toggle_select pol s"
| "step pol (Kill job_ids) s = do_kill_jobs job_ids s"
| "step pol (Squeue_done i r clock) s =
     (if i < length (workers s) then
        (case workers s ! i of
           Kill_cancel job_ids \<Rightarrow> s
         | Refresh_jobs \<Rightarrow> finish i (refresh_jobs_async_resume r clock s)
         | Kill_refresh job_ids \<Rightarrow> finish i (refresh_jobs_async_resume r clock s))
      else s)"
| "step pol (Scancel_done i r) s =
     (if i < length (workers s) then
        (case workers s ! i of
           Kill_cancel job_ids \<Rightarrow> do_kill_jobs_resume i job_ids r s
         | Refresh_jobs \<Rightarrow> s
         | Kill_refresh job_ids \<Rightarrow> s)
      else s)"

definition run :: "exclusive \<Rightarrow> event list \<Rightarrow> app \<Rightarrow> app" where
  "run pol evs s = fold (step pol) evs s"

text \<open>\<open>__init__\<close> and \<open>on_mount\<close>: an empty table, no selection, and the initial load.\<close>

definition init :: "string \<Rightarrow> app" where
  "init u = \<lparr>user = u, selected_jobs = {}, table = \<lparr>rows = [], cursor_row = 0\<rparr>,
             workers = [], effects = [], failures = []\<rparr>"

definition on_mount :: "exclusive \<Rightarrow> string \<Rightarrow> app" where
  "on_mount pol u = refresh_jobs pol (init u)"

text \<open>The workers that wait for a job query, and those started through \<open>refresh_jobs\<close>.\<close>

fun fetching :: "worker \<Rightarrow> bool" where
  "fetching Refresh_jobs = True"
| "fetching (Kill_cancel job_ids) = False"
| "fetching (Kill_refresh job_ids) = True"

definition fetches_in_flight :: "app \<Rightarrow> nat" where
  "fetches_in_flight s = length (filter fetching (workers s))"

definition refresh_workers :: "app \<Rightarrow> nat" where
  "refresh_workers s = length (filter (\<lambda>w. w = Refresh_jobs) (workers s))"

section \<open>Notions used in the statements\<close>

text \<open>
  The row that \<open>add_job\<close> appends for a job that passes the filter, and the filter on the
  stamped snapshot.
\<close>

definition time_text :: "int \<Rightarrow> job \<Rightarrow> string" where
  "time_text now j =
     (case format_time_used now (dict_get j ''start_time'' (PInt 0)) (job_state j) of
        Inl e \<Rightarrow> [] | Inr time_used \<Rightarrow> time_used)"

definition job_row :: "string set \<Rightarrow> int \<times> job \<Rightarrow> row" where
  "job_row selected nj =
     (job_key (snd nj),
      [PStr (job_id_display selected (job_key (snd nj))),
       dict_get (snd nj) ''partition'' (PStr ''''),
       dict_get (snd nj) ''name'' (PStr ''''),
       job_state (snd nj),
       PStr (time_text (fst nj) (snd nj)),
       last_col (snd nj)])"

definition survives :: "int \<times> job \<Rightarrow> bool" where
  "survives nj = (\<not> is_terminal (job_state (snd nj)))"

definition visible :: "job list \<Rightarrow> job list" where
  "visible jobs = filter (\<lambda>j. \<not> is_terminal (job_state j)) jobs"

text \<open>
  The snapshot of the spec's data model: identifiers unique among the jobs that become
  visible, and a start time that is a number of seconds for every running job.
\<close>

definition well_formed :: "job list \<Rightarrow> bool" where
  "well_formed jobs =
     (distinct (map job_key (visible jobs))
      \<and> list_all (\<lambda>j. job_state j \<noteq> PStr ''RUNNING''
                      \<or> as_int (dict_get j ''start_time'' (PInt 0)) \<noteq> None) jobs)"

text \<open>
  A failed poll, in the spec's taxonomy: the process does not start, it exits with a
  non-zero code, or its output does not parse to an object.
\<close>

fun poll_failed :: "squeue_stdout proc_result \<Rightarrow> bool" where
  "poll_failed (LaunchError e) = True"
| "poll_failed (Exited returncode err (Unparseable e)) = True"
| "poll_failed (Exited returncode err (NotObject e)) = True"
| "poll_failed (Exited returncode err (Object jobs)) = (returncode \<noteq> 0)"

text \<open>Two tables with the same keys in the same order and the cursor on the same row.\<close>

definition same_keys :: "data_table \<Rightarrow> data_table \<Rightarrow> bool" where
  "same_keys a b = (map fst (rows a) = map fst (rows b) \<and> cursor_row a = cursor_row b)"

text \<open>The events that start a \<open>do_kill_jobs\<close> worker.\<close>

fun is_kill :: "event \<Rightarrow> bool" where
  "is_kill (Kill job_ids) = True"
| "is_kill e = False"


section \<open>Sample snapshots\<close>

text \<open>
  A finished job, a pending job waiting for resources, and two running jobs; the polls
  that return them; and the application after a first poll, with the cursor on the first
  row.
\<close>

definition j_done :: job where
  "j_done = [''job_id'' \<mapsto> PInt 1, ''job_state'' \<mapsto> PStr ''COMPLETED'']"

definition j_pend :: job where
  "j_pend = [''job_id'' \<mapsto> PInt 2, ''job_state'' \<mapsto> PStr ''PENDING'',
             ''job_reason'' \<mapsto> PStr ''Resources'']"

definition j_run :: job where
  "j_run = [''job_id'' \<mapsto> PInt 3, ''job_state'' \<mapsto> PStr ''RUNNING'',
            ''nodes'' \<mapsto> PStr ''node01'', ''start_time'' \<mapsto> PInt 935]"

definition j_old :: job where
  "j_old = [''job_id'' \<mapsto> PInt 9, ''job_state'' \<mapsto> PStr ''RUNNING'',
            ''nodes'' \<mapsto> PStr ''node02'', ''start_time'' \<mapsto> PInt 10]"

definition poll :: "job list \<Rightarrow> squeue_stdout proc_result" where
  "poll jobs = Exited 0 (Text []) (Object (Some jobs))"

definition at_1000 :: "nat \<Rightarrow> int" where
  "at_1000 i = 1000"

definition showing :: "job list \<Rightarrow> app" where
  "showing jobs = snd (refresh_jobs_async_resume (poll jobs) at_1000 (init ''u''))"

definition j_wait :: job where
  "j_wait = [''job_id'' \<mapsto> PInt 4, ''job_state'' \<mapsto> PStr ''PENDING'']"


section \<open>Properties of the elapsed time\<close>

lemma str_int_0: "str_int 0 = ''0''"
  by (simp add: str_int_def str_nat.simps digit_char_def)

lemma fmt_02d_0: "fmt_02d 0 = ''00''"
  by (simp add: fmt_02d_def str_int_0)

lemma spec_elapsed_0: "spec_elapsed 0 = ''0:00''"
  by (simp add: spec_elapsed_def str_int_0 fmt_02d_0)

lemma div_60_60: "(e::int) div 60 div 60 = e div 3600"
  by (simp add: div_mult2_eq [symmetric])

lemma div_3600_24: "(e::int) div 3600 div 24 = e div 86400"
  by (simp add: div_mult2_eq [symmetric])

lemma format_running_nonneg:
  assumes "0 \<le> e"
  shows "format_time_used now (PInt (now - e)) (PStr ''RUNNING'') = Inr (spec_elapsed e)"
proof -
  have d: "0 < e div 86400 \<longleftrightarrow> 86400 \<le> e"
    using assms by (simp add: pos_imp_zdiv_pos_iff)
  have h: "e < 86400 \<Longrightarrow> (0 < (e div 3600) mod 24 \<longleftrightarrow> 3600 \<le> e)"
  proof -
    assume lt: "e < 86400"
    then have "e div 3600 < 24" by simp
    moreover have "0 \<le> e div 3600" using assms by simp
    ultimately have "(e div 3600) mod 24 = e div 3600" by simp
    moreover have "0 < e div 3600 \<longleftrightarrow> 3600 \<le> e"
      using assms by (simp add: pos_imp_zdiv_pos_iff)
    ultimately show ?thesis by simp
  qed
  show ?thesis
    using assms d h
    by (simp add: format_time_used_def spec_elapsed_def Let_def div_60_60 div_3600_24
        not_le not_less)
qed

text \<open>
  Claim C5. For every state other than \<open>RUNNING\<close> the result is \<open>0:00\<close>, whatever the
  start time is; for \<open>RUNNING\<close> with an integer start time the result is the spec's
  format of \<open>now - start_time\<close> clamped to zero; 90 seconds give \<open>1:30\<close> and 3661
  seconds give \<open>1:01:01\<close>.
\<close>

theorem format_time_used_spec:
  "(state \<noteq> PStr ''RUNNING'' \<longrightarrow> format_time_used now start_time state = Inr ''0:00'')
   \<and> format_time_used now (PInt st) (PStr ''RUNNING'') = Inr (spec_elapsed (max 0 (now - st)))
   \<and> format_time_used now (PInt (now - 90)) (PStr ''RUNNING'') = Inr ''1:30''
   \<and> format_time_used now (PInt (now - 3661)) (PStr ''RUNNING'') = Inr ''1:01:01''"
proof -
  have a: "state \<noteq> PStr ''RUNNING'' \<longrightarrow> format_time_used now start_time state = Inr ''0:00''"
    by (simp add: format_time_used_def)
  have b: "format_time_used now (PInt st) (PStr ''RUNNING'') = Inr (spec_elapsed (max 0 (now - st)))"
  proof (cases "now - st < 0")
    case True
    then show ?thesis
      by (simp add: format_time_used_def Let_def max_def spec_elapsed_0)
  next
    case False
    then have e: "0 \<le> now - st" by simp
    have "format_time_used now (PInt (now - (now - st))) (PStr ''RUNNING'')
          = Inr (spec_elapsed (now - st))"
      using e by (rule format_running_nonneg)
    then show ?thesis using e by (simp add: max_def)
  qed
  have c: "format_time_used now (PInt (now - 90)) (PStr ''RUNNING'') = Inr ''1:30''"
    by (simp add: format_time_used_def Let_def str_int_def fmt_02d_def str_nat.simps
        digit_char_def)
  have d: "format_time_used now (PInt (now - 3661)) (PStr ''RUNNING'') = Inr ''1:01:01''"
    by (simp add: format_time_used_def Let_def str_int_def fmt_02d_def str_nat.simps
        digit_char_def)
  from a b c d show ?thesis by simp
qed

theorem format_time_used_spec_witness:
  "PStr ''PENDING'' \<noteq> PStr ''RUNNING''
   \<and> format_time_used 1000 (PInt 5) (PStr ''PENDING'') = Inr ''0:00''
   \<and> format_time_used 1000 (PInt 1200) (PStr ''RUNNING'') = Inr ''0:00''
   \<and> format_time_used 1000 (PInt 910) (PStr ''RUNNING'') = Inr ''1:30''"
  using format_time_used_spec [of "PStr ''PENDING''" 1000 "PInt 5" 1200]
    format_time_used_spec [of "PStr ''PENDING''" 1000 "PInt 5" 910]
  by (simp add: spec_elapsed_0)

section \<open>The loop of the refresh\<close>

lemma survives_eq: "survives = (\<lambda>nj. \<not> is_terminal (job_state (snd nj)))"
  by (rule ext) (simp add: survives_def)

lemma add_job_Inr:
  assumes "add_job sel now j t = Inr t'"
  shows "(is_terminal (job_state j) \<and> t' = t)
       \<or> (\<not> is_terminal (job_state j) \<and> job_key j \<notin> set (map fst (rows t))
          \<and> t' = t\<lparr>rows := rows t @ [job_row sel (now, j)]\<rparr>)"
  using assms
  by (auto simp: add_job_def Let_def add_row_def job_row_def time_text_def
      split: sum.splits if_splits)

lemma add_jobs_ok:
  "add_jobs sel njs t = (None, t') \<Longrightarrow>
     rows t' = rows t @ map (job_row sel) (filter survives njs) \<and> cursor_row t' = cursor_row t"
proof (induction njs arbitrary: t)
  case Nil
  then show ?case by simp
next
  case (Cons nj njs)
  from Cons.prems obtain t1 where a: "add_job sel (fst nj) (snd nj) t = Inr t1"
    and b: "add_jobs sel njs t1 = (None, t')"
    by (auto split: sum.splits)
  from Cons.IH [OF b] have ih: "rows t' = rows t1 @ map (job_row sel) (filter survives njs)"
    "cursor_row t' = cursor_row t1" by simp_all
  from add_job_Inr [OF a] show ?case
    using ih by (auto simp: survives_eq)
qed

lemma add_jobs_any:
  "add_jobs sel njs t = (err, t') \<Longrightarrow> r \<in> set (rows t') \<Longrightarrow>
     r \<in> set (rows t) \<or> (\<exists>nj \<in> set njs. survives nj \<and> r = job_row sel nj)"
proof (induction njs arbitrary: t)
  case Nil
  then show ?case by simp
next
  case (Cons nj njs)
  show ?case
  proof (cases "add_job sel (fst nj) (snd nj) t")
    case (Inl e)
    with Cons.prems show ?thesis by simp
  next
    case (Inr t1)
    with Cons.prems have b: "add_jobs sel njs t1 = (err, t')" by simp
    from Cons.IH [OF b Cons.prems(2)]
    have "r \<in> set (rows t1) \<or> (\<exists>nj \<in> set njs. survives nj \<and> r = job_row sel nj)" .
    with add_job_Inr [OF Inr] show ?thesis
      by (auto simp: survives_def)
  qed
qed

lemma add_jobs_cursor: "cursor_row (snd (add_jobs sel njs t)) = cursor_row t"
proof (induction njs arbitrary: t)
  case Nil
  then show ?case by simp
next
  case (Cons nj njs)
  show ?case
  proof (cases "add_job sel (fst nj) (snd nj) t")
    case (Inl e)
    then show ?thesis by simp
  next
    case (Inr t1)
    with add_job_Inr [OF Inr] Cons.IH [of t1] show ?thesis by auto
  qed
qed

lemma format_time_used_Inr:
  "state \<noteq> PStr ''RUNNING'' \<or> as_int st \<noteq> None \<Longrightarrow> \<exists>tu. format_time_used now st state = Inr tu"
  by (auto simp: format_time_used_def Let_def)

lemma add_job_completes:
  assumes "job_state j \<noteq> PStr ''RUNNING'' \<or> as_int (dict_get j ''start_time'' (PInt 0)) \<noteq> None"
    and "is_terminal (job_state j) \<or> job_key j \<notin> set (map fst (rows t))"
  shows "\<exists>t'. add_job sel now j t = Inr t'"
proof -
  from format_time_used_Inr [OF assms(1)] obtain tu
    where "format_time_used now (dict_get j ''start_time'' (PInt 0)) (job_state j) = Inr tu"
    by blast
  with assms(2) show ?thesis
    by (auto simp: add_job_def Let_def add_row_def)
qed

lemma add_jobs_completes:
  assumes "distinct (map fst (rows t) @ map (\<lambda>nj. job_key (snd nj)) (filter survives njs))"
    and "list_all (\<lambda>nj. job_state (snd nj) \<noteq> PStr ''RUNNING''
               \<or> as_int (dict_get (snd nj) ''start_time'' (PInt 0)) \<noteq> None) njs"
  shows "fst (add_jobs sel njs t) = None"
  using assms
proof (induction njs arbitrary: t)
  case Nil
  then show ?case by simp
next
  case (Cons nj njs)
  have key: "is_terminal (job_state (snd nj)) \<or> job_key (snd nj) \<notin> set (map fst (rows t))"
    using Cons.prems(1) by (auto simp: survives_def)
  from Cons.prems(2)
  have st: "job_state (snd nj) \<noteq> PStr ''RUNNING''
      \<or> as_int (dict_get (snd nj) ''start_time'' (PInt 0)) \<noteq> None" by simp
  from add_job_completes [OF st key] obtain t1
    where a: "add_job sel (fst nj) (snd nj) t = Inr t1" by blast
  have d: "distinct (map fst (rows t1) @ map (\<lambda>nj. job_key (snd nj)) (filter survives njs))"
  proof (cases "survives nj")
    case True
    then have nt: "\<not> is_terminal (job_state (snd nj))" by (simp add: survives_def)
    with add_job_Inr [OF a] have t1: "rows t1 = rows t @ [job_row sel (fst nj, snd nj)]"
      by auto
    have k: "\<And>x. fst (job_row sel x) = job_key (snd x)"
      by (simp add: job_row_def)
    from Cons.prems(1) True
    have "distinct (map fst (rows t) @ job_key (snd nj) # map (\<lambda>nj. job_key (snd nj)) (filter survives njs))"
      by simp
    then show ?thesis unfolding t1 by (auto simp: k)
  next
    case False
    then have "is_terminal (job_state (snd nj))" by (simp add: survives_def)
    with add_job_Inr [OF a] have "t1 = t" by auto
    with Cons.prems(1) False show ?thesis by simp
  qed
  from Cons.prems(2) have l: "list_all (\<lambda>nj. job_state (snd nj) \<noteq> PStr ''RUNNING''
               \<or> as_int (dict_get (snd nj) ''start_time'' (PInt 0)) \<noteq> None) njs" by simp
  from Cons.IH [OF d l] a show ?case by simp
qed

lemma index_of_Some: "index_of k rs = Some i \<Longrightarrow> i < length rs \<and> fst (rs ! i) = k"
  by (induction rs arbitrary: i) (auto split: if_splits option.splits)

lemma index_of_None: "index_of k rs = None \<longleftrightarrow> k \<notin> set (map fst rs)"
  by (induction rs) (auto split: if_splits option.splits)

lemma stamp_snd: "map snd (stamp clock jobs) = jobs"
  by (simp add: stamp_def)

lemma keys_filter_stamp:
  "map (\<lambda>nj. job_key (snd nj)) (filter survives (stamp clock jobs)) = map job_key (visible jobs)"
proof -
  have "filter (\<lambda>j. \<not> is_terminal (job_state j)) (map snd (stamp clock jobs))
        = map snd (filter survives (stamp clock jobs))"
    by (simp add: filter_map survives_eq comp_def)
  then show ?thesis by (simp add: stamp_snd visible_def)
qed

lemma list_all_stamp:
  "list_all P jobs \<Longrightarrow> list_all (\<lambda>nj. P (snd nj)) (stamp clock jobs)"
proof -
  assume "list_all P jobs"
  then have "list_all P (map snd (stamp clock jobs))" by (simp add: stamp_snd)
  then show ?thesis by (simp add: list_all_iff)
qed

lemma rows_restore_cursor: "rows (restore_cursor key t) = rows t"
  by (simp add: restore_cursor_def move_cursor_def split: option.splits sum.splits)

text \<open>The refresh in terms of the loop.\<close>

lemma refresh_resume_unfold:
  "refresh_jobs_async_resume r clock s =
     (let res = add_jobs (selected_jobs s) (stamp clock (fst (get_jobs_return r))) (clear (table s));
          s1 = emit (snd (get_jobs_return r)) s
      in (fst res, s1\<lparr>table := (if fst res = None
                                then restore_cursor (current_row_key (table s)) (snd res)
                                else snd res)\<rparr>))"
  by (auto simp: refresh_jobs_async_resume_def Let_def emit_def split: prod.splits option.splits)

lemma refresh_completes:
  assumes "well_formed (fst (get_jobs_return r))"
  shows "fst (refresh_jobs_async_resume r clock s) = None"
proof -
  let ?jobs = "fst (get_jobs_return r)"
  have d: "distinct (map fst (rows (clear (table s)))
            @ map (\<lambda>nj. job_key (snd nj)) (filter survives (stamp clock ?jobs)))"
    using assms by (simp add: keys_filter_stamp well_formed_def clear_def)
  have l: "list_all (\<lambda>nj. job_state (snd nj) \<noteq> PStr ''RUNNING''
               \<or> as_int (dict_get (snd nj) ''start_time'' (PInt 0)) \<noteq> None) (stamp clock ?jobs)"
    using assms list_all_stamp [of "\<lambda>j. job_state j \<noteq> PStr ''RUNNING''
               \<or> as_int (dict_get j ''start_time'' (PInt 0)) \<noteq> None" ?jobs clock]
    unfolding well_formed_def by blast
  from add_jobs_completes [OF d l] show ?thesis
    by (simp add: refresh_resume_unfold Let_def)
qed

lemma refresh_rows:
  assumes "well_formed (fst (get_jobs_return r))"
  shows "rows (table (snd (refresh_jobs_async_resume r clock s)))
         = map (job_row (selected_jobs s)) (filter survives (stamp clock (fst (get_jobs_return r))))"
proof -
  let ?res = "add_jobs (selected_jobs s) (stamp clock (fst (get_jobs_return r))) (clear (table s))"
  from refresh_completes [OF assms, of clock s]
  have n: "fst ?res = None" by (simp add: refresh_resume_unfold Let_def)
  then have "?res = (None, snd ?res)" by (metis prod.collapse)
  from add_jobs_ok [OF this] have "rows (snd ?res)
      = map (job_row (selected_jobs s)) (filter survives (stamp clock (fst (get_jobs_return r))))"
    by (simp add: clear_def)
  with n show ?thesis
    by (simp add: refresh_resume_unfold Let_def rows_restore_cursor)
qed

lemma refresh_table_any:
  assumes "row \<in> set (rows (table (snd (refresh_jobs_async_resume r clock s))))"
  shows "\<exists>nj \<in> set (stamp clock (fst (get_jobs_return r))).
           survives nj \<and> row = job_row (selected_jobs s) nj"
proof -
  let ?njs = "stamp clock (fst (get_jobs_return r))"
  let ?res = "add_jobs (selected_jobs s) ?njs (clear (table s))"
  have "rows (table (snd (refresh_jobs_async_resume r clock s))) = rows (snd ?res)"
    by (simp add: refresh_resume_unfold Let_def rows_restore_cursor)
  with assms have m: "row \<in> set (rows (snd ?res))" by simp
  have "?res = (fst ?res, snd ?res)" by simp
  from add_jobs_any [OF this m] show ?thesis by (simp add: clear_def)
qed

lemma stamp_member: "nj \<in> set (stamp clock jobs) \<Longrightarrow> snd nj \<in> set jobs"
  by (metis stamp_snd image_eqI set_map)

lemma row_state_job_row: "row_state (job_row sel nj) = job_state (snd nj)"
  by (simp add: row_state_def job_row_def)

lemma row_placement_job_row: "row_placement (job_row sel nj) = last_col (snd nj)"
  by (simp add: row_placement_def job_row_def)

lemma row_id_cell_job_row:
  "row_id_cell (job_row sel nj) = PStr (job_id_display sel (job_key (snd nj)))"
  by (simp add: row_id_cell_def job_row_def)

lemma fst_job_row: "fst (job_row sel nj) = job_key (snd nj)"
  by (simp add: job_row_def)

lemma refresh_rows_from_jobs:
  "\<forall>row \<in> set (rows (table (snd (refresh_jobs_async_resume r clock s)))).
     \<not> is_terminal (row_state row)
     \<and> (\<exists>j \<in> set (fst (get_jobs_return r)). fst row = job_key j \<and> row_state row = job_state j)"
proof
  fix row
  assume "row \<in> set (rows (table (snd (refresh_jobs_async_resume r clock s))))"
  from refresh_table_any [OF this] obtain nj
    where nj: "nj \<in> set (stamp clock (fst (get_jobs_return r)))" "survives nj"
      "row = job_row (selected_jobs s) nj" by blast
  from nj(1) have "snd nj \<in> set (fst (get_jobs_return r))" by (rule stamp_member)
  with nj(2,3) show "\<not> is_terminal (row_state row)
     \<and> (\<exists>j \<in> set (fst (get_jobs_return r)). fst row = job_key j \<and> row_state row = job_state j)"
    by (auto simp: survives_def row_state_job_row fst_job_row)
qed


lemma step_table:
  "table (step pol e s) = table s
   \<or> (\<exists>r c. table (step pol e s) = table (snd (refresh_jobs_async_resume r c s)))"
proof (cases e)
  case Trigger
  then show ?thesis
    by (simp add: refresh_jobs_def get_jobs_launch_def emit_def split: exclusive.splits)
next
  case Toggle
  then show ?thesis
    by (simp add: action_toggle_select_def refresh_jobs_def get_jobs_launch_def emit_def
        split: exclusive.splits sum.splits)
next
  case (Kill ids)
  then show ?thesis by (simp add: do_kill_jobs_def emit_def)
next
  case (Squeue_done i r c)
  then show ?thesis
    by (auto simp: finish_def Let_def split: worker.splits)
next
  case (Scancel_done i r)
  then show ?thesis
    by (simp add: do_kill_jobs_resume_def get_jobs_launch_def emit_def Let_def
        split: worker.splits prod.splits)
qed

lemma refresh_no_terminal:
  "row \<in> set (rows (table (snd (refresh_jobs_async_resume r clock s)))) \<Longrightarrow>
     \<not> is_terminal (row_state row)"
  using refresh_table_any [of row r clock s]
  by (auto simp: survives_def row_state_job_row)

lemma run_no_terminal:
  assumes "\<forall>row \<in> set (rows (table s)). \<not> is_terminal (row_state row)"
  shows "\<forall>row \<in> set (rows (table (run pol evs s))). \<not> is_terminal (row_state row)"
  using assms
proof (induction evs arbitrary: s)
  case Nil
  then show ?case by (simp add: run_def)
next
  case (Cons e evs)
  have "\<forall>row \<in> set (rows (table (step pol e s))). \<not> is_terminal (row_state row)"
    using step_table [of pol e s] Cons.prems refresh_no_terminal by metis
  from Cons.IH [OF this] show ?case by (simp add: run_def)
qed

lemma table_on_mount: "table (on_mount pol u) = \<lparr>rows = [], cursor_row = 0\<rparr>"
  by (simp add: on_mount_def refresh_jobs_def get_jobs_launch_def emit_def init_def
      split: exclusive.splits)

lemma index_of_keys:
  "map fst rs1 = map fst rs2 \<Longrightarrow> index_of k rs1 = index_of k rs2"
proof (induction rs1 arbitrary: rs2)
  case Nil
  then show ?case by simp
next
  case (Cons r rs1)
  then obtain r2 rs2' where "rs2 = r2 # rs2'" by (cases rs2) auto
  with Cons show ?case by auto
qed

lemma cursor_key_restore:
  assumes "k \<in> set (map fst (rows t))"
  shows "cursor_row_key (restore_cursor (Some k) t) = Inr k"
proof -
  from assms obtain i where i: "index_of k (rows t) = Some i"
    using index_of_None [of k "rows t"] by (cases "index_of k (rows t)") auto
  from index_of_Some [OF i] i show ?thesis
    by (simp add: restore_cursor_def get_row_index_def move_cursor_def cursor_row_key_def)
qed

lemma cursor_restore_absent:
  assumes "k \<notin> set (map fst (rows t))"
  shows "restore_cursor (Some k) t = t"
  using assms index_of_None [of k "rows t"]
  by (simp add: restore_cursor_def get_row_index_def)

lemma current_row_key_Inr:
  "cursor_row_key t = Inr k \<Longrightarrow> current_row_key t = Some k"
  by (auto simp: current_row_key_def cursor_row_key_def row_count_def split: if_splits)

lemma refresh_table_ok:
  assumes "well_formed (fst (get_jobs_return r))"
  shows "table (snd (refresh_jobs_async_resume r clock s))
         = restore_cursor (current_row_key (table s))
             \<lparr>rows = map (job_row (selected_jobs s)) (filter survives (stamp clock (fst (get_jobs_return r)))),
              cursor_row = 0\<rparr>"
proof -
  let ?res = "add_jobs (selected_jobs s) (stamp clock (fst (get_jobs_return r))) (clear (table s))"
  from refresh_completes [OF assms, of clock s]
  have n: "fst ?res = None" by (simp add: refresh_resume_unfold Let_def)
  then have "?res = (None, snd ?res)" by (metis prod.collapse)
  from add_jobs_ok [OF this] have "snd ?res
      = \<lparr>rows = map (job_row (selected_jobs s)) (filter survives (stamp clock (fst (get_jobs_return r)))),
         cursor_row = 0\<rparr>"
    by (simp add: clear_def)
  with n show ?thesis
    by (simp add: refresh_resume_unfold Let_def)
qed

lemma keys_job_rows:
  "map fst (map (job_row sel) (filter survives (stamp clock jobs))) = map job_key (visible jobs)"
  using keys_filter_stamp [of clock jobs] by (simp add: fst_job_row comp_def)

section \<open>The visible table after a refresh\<close>

text \<open>The definitions a concrete run unfolds.\<close>

lemmas eval_defs = refresh_jobs_async_resume_def get_jobs_return_def get_jobs_body_def
  stamp_def add_job_def add_row_def clear_def emit_def init_def current_row_key_def
  row_count_def cursor_row_key_def restore_cursor_def get_row_index_def move_cursor_def
  job_key_def job_state_def dict_get_def is_terminal_def last_col_def job_id_display_def
  format_time_used_def str_int_def fmt_02d_def str_nat.simps digit_char_def Let_def
  j_done_def j_pend_def j_run_def j_old_def poll_def at_1000_def showing_def visible_def
  well_formed_def row_state_def row_placement_def row_id_cell_def

lemma table_showing_run_old:
  "table (showing [j_run, j_old])
   = \<lparr>rows = [(''3'', [PStr ''3'', PStr '''', PStr '''', PStr ''RUNNING'', PStr ''1:05'', PStr ''node01'']),
              (''9'', [PStr ''9'', PStr '''', PStr '''', PStr ''RUNNING'', PStr ''16:30'', PStr ''node02''])],
      cursor_row = 0\<rparr>"
  by (simp add: eval_defs)

lemma table_showing_old_run:
  "table (showing [j_old, j_run])
   = \<lparr>rows = [(''9'', [PStr ''9'', PStr '''', PStr '''', PStr ''RUNNING'', PStr ''16:30'', PStr ''node02'']),
              (''3'', [PStr ''3'', PStr '''', PStr '''', PStr ''RUNNING'', PStr ''1:05'', PStr ''node01''])],
      cursor_row = 0\<rparr>"
  by (simp add: eval_defs)

lemma jobs_poll: "fst (get_jobs_return (poll jobs)) = jobs"
  by (simp add: poll_def get_jobs_return_def get_jobs_body_def)

lemma well_formed_sample: "well_formed [j_done, j_pend, j_run]"
  by (simp add: eval_defs)

lemma visible_sample: "map job_key (visible [j_done, j_pend, j_run]) = [''2'', ''3'']"
  by (simp add: eval_defs)

text \<open>
  Claim C3. The table a refresh leaves, whether the refresh completes or raises on the
  way, has no row whose state is \<open>CANCELLED\<close>, \<open>COMPLETED\<close>, \<open>FAILED\<close> or
  \<open>TIMEOUT\<close>, and each of its rows is the row of a job of the snapshot, under its key
  and with its state; hence no state reached from the start of the application, by any
  sequence of events, shows such a row.
\<close>

theorem terminal_jobs_filtered:
  "(\<forall>row \<in> set (rows (table (snd (refresh_jobs_async_resume r clock s)))).
      \<not> is_terminal (row_state row)
      \<and> (\<exists>j \<in> set (fst (get_jobs_return r)). fst row = job_key j \<and> row_state row = job_state j))
   \<and> (\<forall>row \<in> set (rows (table (run pol evs (on_mount pol u)))). \<not> is_terminal (row_state row))"
proof -
  have "\<forall>row \<in> set (rows (table (on_mount pol u))). \<not> is_terminal (row_state row)"
    by (simp add: table_on_mount)
  from run_no_terminal [OF this] refresh_rows_from_jobs show ?thesis by blast
qed

theorem terminal_jobs_filtered_witness:
  "job_state j_done = PStr ''COMPLETED''
   \<and> map fst (rows (table (snd (refresh_jobs_async_resume (poll [j_done, j_pend, j_run]) at_1000 (init ''u'')))))
       = [''2'', ''3'']
   \<and> map row_state (rows (table (snd (refresh_jobs_async_resume (poll [j_done, j_pend, j_run]) at_1000 (init ''u'')))))
       = [PStr ''PENDING'', PStr ''RUNNING'']
   \<and> \<not> is_terminal (PStr ''PENDING'') \<and> \<not> is_terminal (PStr ''RUNNING'')
   \<and> rows (table (run Drop_trigger [Squeue_done 0 (poll [j_done, j_pend, j_run]) at_1000] (on_mount Drop_trigger ''u'')))
       = rows (table (snd (refresh_jobs_async_resume (poll [j_done, j_pend, j_run]) at_1000 (init ''u''))))"
  using terminal_jobs_filtered [of "poll [j_done, j_pend, j_run]" at_1000 "init ''u''" Drop_trigger
      "[Squeue_done 0 (poll [j_done, j_pend, j_run]) at_1000]" "''u''"]
  by (simp add: eval_defs run_def on_mount_def refresh_jobs_def get_jobs_launch_def finish_def
      remove_at_def)

text \<open>
  Claim C2. For a snapshot of the spec's data model (identifiers unique, start times
  numbers), the refresh completes; if the identifier under the cursor before the refresh
  is among the jobs that stay visible, the cursor is on the row of that identifier
  afterwards; if it is not, the cursor is on row 0, where clearing the table left it.
\<close>

theorem cursor_follows_job:
  assumes "well_formed (fst (get_jobs_return r))"
    and "cursor_row_key (table s) = Inr k"
  shows "fst (refresh_jobs_async_resume r clock s) = None
     \<and> (k \<in> set (map job_key (visible (fst (get_jobs_return r))))
          \<longrightarrow> cursor_row_key (table (snd (refresh_jobs_async_resume r clock s))) = Inr k)
     \<and> (k \<notin> set (map job_key (visible (fst (get_jobs_return r))))
          \<longrightarrow> cursor_row (table (snd (refresh_jobs_async_resume r clock s))) = 0)"
proof -
  let ?t = "\<lparr>rows = map (job_row (selected_jobs s))
                      (filter survives (stamp clock (fst (get_jobs_return r)))),
             cursor_row = 0\<rparr>"
  have t: "table (snd (refresh_jobs_async_resume r clock s)) = restore_cursor (Some k) ?t"
    using refresh_table_ok [OF assms(1)] current_row_key_Inr [OF assms(2)] by simp
  have keys: "map fst (rows ?t) = map job_key (visible (fst (get_jobs_return r)))"
    using keys_job_rows by simp
  have a: "k \<in> set (map job_key (visible (fst (get_jobs_return r))))
          \<longrightarrow> cursor_row_key (table (snd (refresh_jobs_async_resume r clock s))) = Inr k"
    using cursor_key_restore [of k ?t] keys t by metis
  have b: "k \<notin> set (map job_key (visible (fst (get_jobs_return r))))
          \<longrightarrow> cursor_row (table (snd (refresh_jobs_async_resume r clock s))) = 0"
  proof
    assume "k \<notin> set (map job_key (visible (fst (get_jobs_return r))))"
    then have "k \<notin> set (map fst (rows ?t))" using keys by metis
    from cursor_restore_absent [OF this] t show
      "cursor_row (table (snd (refresh_jobs_async_resume r clock s))) = 0" by simp
  qed
  from refresh_completes [OF assms(1)] a b show ?thesis by blast
qed

theorem cursor_follows_job_witness:
  "well_formed (fst (get_jobs_return (poll [j_done, j_pend, j_run])))
   \<and> cursor_row_key (table (showing [j_run, j_old])) = Inr ''3''
   \<and> cursor_row (table (showing [j_run, j_old])) = 0
   \<and> ''3'' \<in> set (map job_key (visible (fst (get_jobs_return (poll [j_done, j_pend, j_run])))))
   \<and> cursor_row_key (table (snd (refresh_jobs_async_resume (poll [j_done, j_pend, j_run]) at_1000
         (showing [j_run, j_old])))) = Inr ''3''
   \<and> cursor_row (table (snd (refresh_jobs_async_resume (poll [j_done, j_pend, j_run]) at_1000
         (showing [j_run, j_old])))) = 1
   \<and> cursor_row_key (table (showing [j_old, j_run])) = Inr ''9''
   \<and> ''9'' \<notin> set (map job_key (visible (fst (get_jobs_return (poll [j_done, j_pend, j_run])))))
   \<and> cursor_row (table (snd (refresh_jobs_async_resume (poll [j_done, j_pend, j_run]) at_1000
         (showing [j_old, j_run])))) = 0"
proof -
  have w: "well_formed (fst (get_jobs_return (poll [j_done, j_pend, j_run])))"
    by (simp add: jobs_poll well_formed_sample)
  have v: "map job_key (visible (fst (get_jobs_return (poll [j_done, j_pend, j_run])))) = [''2'', ''3'']"
    by (simp add: jobs_poll visible_sample)
  have c3: "cursor_row_key (table (showing [j_run, j_old])) = Inr ''3''"
    by (simp add: table_showing_run_old cursor_row_key_def)
  have c9: "cursor_row_key (table (showing [j_old, j_run])) = Inr ''9''"
    by (simp add: table_showing_old_run cursor_row_key_def)
  have i: "cursor_row (table (snd (refresh_jobs_async_resume (poll [j_done, j_pend, j_run]) at_1000
         (showing [j_run, j_old])))) = 1"
    unfolding showing_def by (simp add: eval_defs)
  from cursor_follows_job [OF w c3, of at_1000] cursor_follows_job [OF w c9, of at_1000] w v c3 c9 i
  show ?thesis by (simp add: table_showing_run_old)
qed

section \<open>Selection and placement\<close>

lemma refresh_selected:
  "selected_jobs (snd (refresh_jobs_async_resume r clock s)) = selected_jobs s"
  by (simp add: refresh_resume_unfold Let_def emit_def)

lemma step_selected:
  assumes "selected_jobs (step pol e s) \<noteq> selected_jobs s"
  shows "e = Toggle
      \<or> (\<exists>i r. e = Scancel_done i r \<and> fst (cancel_jobs_return r) \<and> selected_jobs (step pol e s) = {})"
proof (cases e)
  case Trigger
  with assms show ?thesis
    by (simp add: refresh_jobs_def get_jobs_launch_def emit_def split: exclusive.splits if_splits)
next
  case Toggle
  then show ?thesis by simp
next
  case (Kill ids)
  with assms show ?thesis by (simp add: do_kill_jobs_def emit_def split: if_splits)
next
  case (Squeue_done i r c)
  with assms show ?thesis
    by (auto simp: finish_def Let_def refresh_selected split: worker.splits if_splits)
next
  case (Scancel_done i r)
  with assms show ?thesis
    by (auto simp: do_kill_jobs_resume_def get_jobs_launch_def emit_def Let_def
        split: worker.splits prod.splits if_splits)
qed

text \<open>
  Claim C8. A refresh leaves the selection set as it was, whatever the new snapshot
  holds; and an event that changes the selection set is the toggle, or the return of a
  cancel command that succeeded, which empties it.
\<close>

theorem refresh_keeps_selection:
  "selected_jobs (snd (refresh_jobs_async_resume r clock s)) = selected_jobs s
   \<and> (selected_jobs (step pol e s) \<noteq> selected_jobs s \<longrightarrow>
        e = Toggle
        \<or> (\<exists>i r'. e = Scancel_done i r' \<and> fst (cancel_jobs_return r')
               \<and> selected_jobs (step pol e s) = {}))"
  using refresh_selected step_selected by blast

theorem refresh_keeps_selection_witness:
  "''9'' \<in> selected_jobs ((showing [j_old, j_run])\<lparr>selected_jobs := {''9''}\<rparr>)
   \<and> ''9'' \<notin> set (map job_key (fst (get_jobs_return (poll [j_done, j_pend, j_run]))))
   \<and> selected_jobs (snd (refresh_jobs_async_resume (poll [j_done, j_pend, j_run]) at_1000
        ((showing [j_old, j_run])\<lparr>selected_jobs := {''9''}\<rparr>))) = {''9''}
   \<and> selected_jobs (step Drop_trigger Toggle (showing [j_old, j_run])) = {''9''}
   \<and> selected_jobs (step Drop_trigger Toggle (showing [j_old, j_run]))
        \<noteq> selected_jobs (showing [j_old, j_run])"
proof -
  have a: "selected_jobs (showing [j_old, j_run]) = {}"
    by (simp add: showing_def refresh_selected init_def)
  have b: "selected_jobs (step Drop_trigger Toggle (showing [j_old, j_run])) = {''9''}"
    by (simp add: action_toggle_select_def table_showing_old_run cursor_row_key_def a
        refresh_jobs_def get_jobs_launch_def emit_def)
  have c: "map job_key (fst (get_jobs_return (poll [j_done, j_pend, j_run]))) = [''1'', ''2'', ''3'']"
    by (simp add: eval_defs)
  from refresh_keeps_selection [of "poll [j_done, j_pend, j_run]" at_1000
      "(showing [j_old, j_run])\<lparr>selected_jobs := {''9''}\<rparr>" Drop_trigger Toggle]
    refresh_keeps_selection [of "poll [j_done, j_pend, j_run]" at_1000
      "showing [j_old, j_run]" Drop_trigger Toggle] a b c
  show ?thesis by simp
qed

lemma placement_rows:
  assumes "well_formed (fst (get_jobs_return r))"
  shows "map (\<lambda>row. (fst row, row_placement row)) (rows (table (snd (refresh_jobs_async_resume r clock s))))
         = map (\<lambda>j. (job_key j, last_col j)) (visible (fst (get_jobs_return r)))"
proof -
  let ?jobs = "fst (get_jobs_return r)"
  have v: "visible ?jobs = map snd (filter survives (stamp clock ?jobs))"
  proof -
    have "filter (\<lambda>j. \<not> is_terminal (job_state j)) (map snd (stamp clock ?jobs))
          = map snd (filter survives (stamp clock ?jobs))"
      by (simp add: filter_map survives_eq comp_def)
    then show ?thesis by (simp add: stamp_snd visible_def)
  qed
  have "rows (table (snd (refresh_jobs_async_resume r clock s)))
        = map (job_row (selected_jobs s)) (filter survives (stamp clock ?jobs))"
    using assms by (rule refresh_rows)
  then show ?thesis
    by (simp add: v comp_def fst_job_row row_placement_job_row)
qed

text \<open>
  Claim C9. After a refresh of a well-formed snapshot, the rows are those of the jobs
  that pass the filter, in order, each with the placement \<open>last_col\<close> computes: for a
  pending job the reason in parentheses, \<open>(PENDING)\<close> when the job has no reason, and
  for any other job the node list. A pending job with reason \<open>Resources\<close> shows
  \<open>(Resources)\<close>; a running job on \<open>node01\<close> shows \<open>node01\<close>.
\<close>

theorem placement_column:
  assumes "well_formed (fst (get_jobs_return r))"
  shows "map (\<lambda>row. (fst row, row_placement row)) (rows (table (snd (refresh_jobs_async_resume r clock s))))
         = map (\<lambda>j. (job_key j, last_col j)) (visible (fst (get_jobs_return r)))
     \<and> (job_state j = PStr ''PENDING'' \<and> j ''job_reason'' = Some (PStr reason) \<and> reason \<noteq> []
          \<longrightarrow> last_col j = PStr (''('' @ reason @ '')''))
     \<and> (job_state j = PStr ''PENDING'' \<and> j ''job_reason'' = None
          \<longrightarrow> last_col j = PStr ''(PENDING)'')
     \<and> (job_state j \<noteq> PStr ''PENDING'' \<longrightarrow> last_col j = dict_get j ''nodes'' (PStr ''''))
     \<and> last_col j_pend = PStr ''(Resources)''
     \<and> last_col j_run = PStr ''node01''"
proof -
  have a: "job_state j = PStr ''PENDING'' \<and> j ''job_reason'' = Some (PStr reason) \<and> reason \<noteq> []
          \<longrightarrow> last_col j = PStr (''('' @ reason @ '')'')"
    by (simp add: last_col_def dict_get_def)
  have b: "job_state j = PStr ''PENDING'' \<and> j ''job_reason'' = None
          \<longrightarrow> last_col j = PStr ''(PENDING)''"
    by (simp add: last_col_def dict_get_def)
  have c: "job_state j \<noteq> PStr ''PENDING'' \<longrightarrow> last_col j = dict_get j ''nodes'' (PStr '''')"
    by (simp add: last_col_def)
  have d: "last_col j_pend = PStr ''(Resources)''"
    by (simp add: last_col_def dict_get_def job_state_def j_pend_def)
  have e: "last_col j_run = PStr ''node01''"
    by (simp add: last_col_def dict_get_def job_state_def j_run_def)
  from placement_rows [OF assms] a b c d e show ?thesis by blast
qed

theorem placement_column_witness:
  "well_formed (fst (get_jobs_return (poll [j_done, j_pend, j_run])))
   \<and> map (\<lambda>row. (fst row, row_placement row))
        (rows (table (snd (refresh_jobs_async_resume (poll [j_done, j_pend, j_run]) at_1000 (init ''u'')))))
      = [(''2'', PStr ''(Resources)''), (''3'', PStr ''node01'')]
   \<and> job_state j_pend = PStr ''PENDING'' \<and> j_pend ''job_reason'' = Some (PStr ''Resources'')
   \<and> last_col j_pend = PStr ''(Resources)''
   \<and> job_state j_wait = PStr ''PENDING'' \<and> j_wait ''job_reason'' = None
   \<and> last_col j_wait = PStr ''(PENDING)''
   \<and> job_state j_run \<noteq> PStr ''PENDING'' \<and> last_col j_run = PStr ''node01''"
proof -
  have w: "well_formed (fst (get_jobs_return (poll [j_done, j_pend, j_run])))"
    by (simp add: jobs_poll well_formed_sample)
  have v: "map (\<lambda>j. (job_key j, last_col j)) (visible (fst (get_jobs_return (poll [j_done, j_pend, j_run]))))
      = [(''2'', PStr ''(Resources)''), (''3'', PStr ''node01'')]"
    by (simp add: eval_defs)
  have p: "job_state j_pend = PStr ''PENDING'' \<and> j_pend ''job_reason'' = Some (PStr ''Resources'')"
    by (simp add: job_state_def dict_get_def j_pend_def)
  have q: "job_state j_wait = PStr ''PENDING'' \<and> j_wait ''job_reason'' = None"
    by (simp add: job_state_def dict_get_def j_wait_def)
  have n: "job_state j_run \<noteq> PStr ''PENDING'' \<and> dict_get j_run ''nodes'' (PStr '''') = PStr ''node01''"
    by (simp add: job_state_def dict_get_def j_run_def)
  from placement_column [OF w, of at_1000 "init ''u''" j_pend "''Resources''"]
    placement_column [OF w, of at_1000 "init ''u''" j_wait "''Resources''"]
    placement_column [OF w, of at_1000 "init ''u''" j_run "''Resources''"]
    w v p q n
  show ?thesis by simp
qed

section \<open>Row keys\<close>

lemma add_row_same_keys:
  assumes "same_keys t1 t2"
  shows "rel_sum (=) same_keys (add_row cells1 key t1) (add_row cells2 key t2)"
proof -
  from assms have k: "map fst (rows t1) = map fst (rows t2)" and c: "cursor_row t1 = cursor_row t2"
    by (simp_all add: same_keys_def)
  show ?thesis
  proof (cases "key \<in> set (map fst (rows t2))")
    case True
    then show ?thesis unfolding add_row_def k by simp
  next
    case False
    then show ?thesis unfolding add_row_def k using k c by (simp add: same_keys_def)
  qed
qed

lemma add_job_same_keys:
  assumes "same_keys t1 t2"
  shows "rel_sum (=) same_keys (add_job sel1 now j t1) (add_job sel2 now j t2)"
proof (cases "format_time_used now (dict_get j ''start_time'' (PInt 0)) (job_state j)")
  case (Inl e)
  then show ?thesis by (simp add: add_job_def Let_def)
next
  case (Inr time_used)
  show ?thesis
  proof (cases "is_terminal (job_state j)")
    case True
    with Inr assms show ?thesis by (simp add: add_job_def Let_def)
  next
    case False
    with Inr add_row_same_keys [OF assms] show ?thesis by (simp add: add_job_def Let_def)
  qed
qed

lemma add_jobs_same_keys:
  assumes "same_keys t1 t2"
  shows "fst (add_jobs sel1 njs t1) = fst (add_jobs sel2 njs t2)
       \<and> same_keys (snd (add_jobs sel1 njs t1)) (snd (add_jobs sel2 njs t2))"
  using assms
proof (induction njs arbitrary: t1 t2)
  case Nil
  then show ?case by simp
next
  case (Cons nj njs)
  have rel: "rel_sum (=) same_keys (add_job sel1 (fst nj) (snd nj) t1)
                                  (add_job sel2 (fst nj) (snd nj) t2)"
    using Cons.prems by (rule add_job_same_keys)
  show ?case
  proof (cases "add_job sel1 (fst nj) (snd nj) t1")
    case (Inl e1)
    with rel obtain e2 where "add_job sel2 (fst nj) (snd nj) t2 = Inl e2" "e1 = e2"
      by (cases "add_job sel2 (fst nj) (snd nj) t2") auto
    with Inl Cons.prems show ?thesis by simp
  next
    case (Inr a)
    with rel obtain b where b: "add_job sel2 (fst nj) (snd nj) t2 = Inr b" "same_keys a b"
      by (cases "add_job sel2 (fst nj) (snd nj) t2") auto
    from Cons.IH [OF b(2)] Inr b(1) show ?thesis by simp
  qed
qed

lemma restore_cursor_same_keys:
  assumes "same_keys t1 t2"
  shows "same_keys (restore_cursor key t1) (restore_cursor key t2)"
proof (cases key)
  case None
  with assms show ?thesis by (simp add: restore_cursor_def)
next
  case (Some k)
  from assms have "map fst (rows t1) = map fst (rows t2)" by (simp add: same_keys_def)
  then have i: "index_of k (rows t1) = index_of k (rows t2)" by (rule index_of_keys)
  show ?thesis
  proof (cases "index_of k (rows t2)")
    case None
    with i Some assms show ?thesis by (simp add: restore_cursor_def get_row_index_def)
  next
    case (Some n)
    have "same_keys (move_cursor n t1) (move_cursor n t2)"
      using assms by (simp add: same_keys_def move_cursor_def)
    with i Some \<open>key = Some k\<close> show ?thesis
      by (simp add: restore_cursor_def get_row_index_def)
  qed
qed

lemma cursor_row_key_same_keys:
  assumes "same_keys t1 t2"
  shows "cursor_row_key t1 = cursor_row_key t2"
proof -
  from assms have l: "length (rows t1) = length (rows t2)"
    unfolding same_keys_def by (metis length_map)
  from assms have "cursor_row t1 < length (rows t1) \<Longrightarrow>
      fst (rows t1 ! cursor_row t1) = fst (rows t2 ! cursor_row t2)"
    unfolding same_keys_def by (metis l nth_map)
  with assms l show ?thesis by (auto simp: cursor_row_key_def same_keys_def)
qed

lemma refresh_same_keys:
  "same_keys (table (snd (refresh_jobs_async_resume r clock (s\<lparr>selected_jobs := sel\<rparr>))))
             (table (snd (refresh_jobs_async_resume r clock s)))"
proof -
  let ?njs = "stamp clock (fst (get_jobs_return r))"
  have c: "same_keys (clear (table s)) (clear (table s))" by (simp add: same_keys_def)
  from add_jobs_same_keys [OF c, of sel ?njs "selected_jobs s"]
  have e: "fst (add_jobs sel ?njs (clear (table s))) = fst (add_jobs (selected_jobs s) ?njs (clear (table s)))"
    and k: "same_keys (snd (add_jobs sel ?njs (clear (table s))))
                      (snd (add_jobs (selected_jobs s) ?njs (clear (table s))))"
    by simp_all
  from k have k': "same_keys (restore_cursor (current_row_key (table s)) (snd (add_jobs sel ?njs (clear (table s)))))
        (restore_cursor (current_row_key (table s)) (snd (add_jobs (selected_jobs s) ?njs (clear (table s)))))"
    by (rule restore_cursor_same_keys)
  from e k k' show ?thesis
    by (simp add: refresh_resume_unfold Let_def emit_def)
qed

lemma cursor_key_in_rows:
  "cursor_row_key t = Inr k \<Longrightarrow> \<exists>row \<in> set (rows t). fst row = k"
  by (auto simp: cursor_row_key_def split: if_splits)

text \<open>
  Claim C10. Every row of the table after a refresh is keyed by the plain identifier of
  its job, while its first cell is the identifier as displayed, with the marker and the
  markup when the job is selected; so the key under the cursor is the plain identifier
  of a job of the snapshot. The keys of the table, their order and the key under the
  cursor do not depend on the selection set.
\<close>

theorem row_key_plain:
  "(\<forall>row \<in> set (rows (table (snd (refresh_jobs_async_resume r clock s)))).
      \<exists>j \<in> set (fst (get_jobs_return r)).
        fst row = job_key j
        \<and> row_id_cell row = PStr (job_id_display (selected_jobs s) (job_key j)))
   \<and> (cursor_row_key (table (snd (refresh_jobs_async_resume r clock s))) = Inr k
        \<longrightarrow> (\<exists>j \<in> set (fst (get_jobs_return r)). k = job_key j))
   \<and> map fst (rows (table (snd (refresh_jobs_async_resume r clock (s\<lparr>selected_jobs := sel\<rparr>)))))
      = map fst (rows (table (snd (refresh_jobs_async_resume r clock s))))
   \<and> cursor_row_key (table (snd (refresh_jobs_async_resume r clock (s\<lparr>selected_jobs := sel\<rparr>))))
      = cursor_row_key (table (snd (refresh_jobs_async_resume r clock s)))
   \<and> (k \<in> sel \<longrightarrow> job_id_display sel k = ''[bold green]* '' @ k @ ''[/]''
                    \<and> job_id_display sel k \<noteq> k)"
proof -
  have a: "\<forall>row \<in> set (rows (table (snd (refresh_jobs_async_resume r clock s)))).
      \<exists>j \<in> set (fst (get_jobs_return r)).
        fst row = job_key j
        \<and> row_id_cell row = PStr (job_id_display (selected_jobs s) (job_key j))"
  proof
    fix row
    assume "row \<in> set (rows (table (snd (refresh_jobs_async_resume r clock s))))"
    from refresh_table_any [OF this] obtain nj
      where nj: "nj \<in> set (stamp clock (fst (get_jobs_return r)))"
        "row = job_row (selected_jobs s) nj" by blast
    from nj(1) have "snd nj \<in> set (fst (get_jobs_return r))" by (rule stamp_member)
    with nj(2) show "\<exists>j \<in> set (fst (get_jobs_return r)).
        fst row = job_key j
        \<and> row_id_cell row = PStr (job_id_display (selected_jobs s) (job_key j))"
      by (auto simp: fst_job_row row_id_cell_job_row)
  qed
  have b: "cursor_row_key (table (snd (refresh_jobs_async_resume r clock s))) = Inr k
        \<longrightarrow> (\<exists>j \<in> set (fst (get_jobs_return r)). k = job_key j)"
    using a cursor_key_in_rows [of "table (snd (refresh_jobs_async_resume r clock s))" k]
    by blast
  have c: "map fst (rows (table (snd (refresh_jobs_async_resume r clock (s\<lparr>selected_jobs := sel\<rparr>)))))
      = map fst (rows (table (snd (refresh_jobs_async_resume r clock s))))"
    using refresh_same_keys [where r=r and clock=clock and s=s and sel=sel] by (simp add: same_keys_def)
  have d: "cursor_row_key (table (snd (refresh_jobs_async_resume r clock (s\<lparr>selected_jobs := sel\<rparr>))))
      = cursor_row_key (table (snd (refresh_jobs_async_resume r clock s)))"
    using refresh_same_keys [where r=r and clock=clock and s=s and sel=sel] by (rule cursor_row_key_same_keys)
  have e: "k \<in> sel \<longrightarrow> job_id_display sel k = ''[bold green]* '' @ k @ ''[/]''
                    \<and> job_id_display sel k \<noteq> k"
    by (simp add: job_id_display_def)
  from a b c d e show ?thesis by blast
qed

theorem row_key_plain_witness:
  "table (snd (refresh_jobs_async_resume (poll [j_pend, j_run]) at_1000
         ((init ''u'')\<lparr>selected_jobs := {''3''}\<rparr>)))
   = \<lparr>rows = [(''2'', [PStr ''2'', PStr [], PStr [], PStr ''PENDING'', PStr ''0:00'',
                       PStr ''(Resources)'']),
              (''3'', [PStr ''[bold green]* 3[/]'', PStr [], PStr [], PStr ''RUNNING'',
                       PStr ''1:05'', PStr ''node01''])],
      cursor_row = 0\<rparr>
   \<and> map fst (rows (table (snd (refresh_jobs_async_resume (poll [j_pend, j_run]) at_1000 (init ''u'')))))
      = [''2'', ''3'']
   \<and> cursor_row_key (table (snd (refresh_jobs_async_resume (poll [j_pend, j_run]) at_1000
         (init ''u'')))) = Inr ''2''
   \<and> job_key j_pend = ''2''
   \<and> ''3'' \<in> {''3''} \<and> job_id_display {''3''} ''3'' = ''[bold green]* 3[/]''"
proof -
  have e1: "table (snd (refresh_jobs_async_resume (poll [j_pend, j_run]) at_1000
         ((init ''u'')\<lparr>selected_jobs := {''3''}\<rparr>)))
   = \<lparr>rows = [(''2'', [PStr ''2'', PStr [], PStr [], PStr ''PENDING'', PStr ''0:00'',
                       PStr ''(Resources)'']),
              (''3'', [PStr ''[bold green]* 3[/]'', PStr [], PStr [], PStr ''RUNNING'',
                       PStr ''1:05'', PStr ''node01''])],
      cursor_row = 0\<rparr>"
    by (simp add: eval_defs)
  have e2: "job_id_display {''3''} ''3'' = ''[bold green]* 3[/]''"
    by (simp add: job_id_display_def)
  have e4: "job_key j_pend = ''2''"
    by (simp add: eval_defs)
  from row_key_plain [where r="poll [j_pend, j_run]" and clock=at_1000 and s="init ''u''"
      and k="''3''" and sel="{''3''}"]
  have e3: "map fst (rows (table (snd (refresh_jobs_async_resume (poll [j_pend, j_run]) at_1000
         ((init ''u'')\<lparr>selected_jobs := {''3''}\<rparr>)))))
      = map fst (rows (table (snd (refresh_jobs_async_resume (poll [j_pend, j_run]) at_1000 (init ''u'')))))"
    and e5: "cursor_row_key (table (snd (refresh_jobs_async_resume (poll [j_pend, j_run]) at_1000
         ((init ''u'')\<lparr>selected_jobs := {''3''}\<rparr>))))
      = cursor_row_key (table (snd (refresh_jobs_async_resume (poll [j_pend, j_run]) at_1000 (init ''u''))))"
    by blast+
  from e1 e2 e3 e4 e5 show ?thesis by (simp add: cursor_row_key_def)
qed

section \<open>The job query\<close>

text \<open>
  Claim C7. Whatever the body of \<open>get_jobs\<close> raises is caught: the result is the empty
  list and one entry in the diagnostic log. A poll that fails (the process does not
  start, exits with a non-zero code, or prints what does not parse to an object) returns
  the empty list, as a poll with no jobs does, and logs one entry.
\<close>

theorem get_jobs_never_raises:
  "(get_jobs_body r = Inl e \<longrightarrow>
      get_jobs_return r = ([], [LogError (''Failed to fetch jobs: '' @ e)]))
   \<and> (poll_failed r \<longrightarrow>
        fst (get_jobs_return r) = []
        \<and> (\<exists>m. snd (get_jobs_return r) = [LogError m])
        \<and> fst (get_jobs_return r) = fst (get_jobs_return (poll [])))"
proof -
  have a: "get_jobs_body r = Inl e \<longrightarrow>
      get_jobs_return r = ([], [LogError (''Failed to fetch jobs: '' @ e)])"
    by (simp add: get_jobs_return_def)
  have b: "poll_failed r \<longrightarrow>
        fst (get_jobs_return r) = []
        \<and> (\<exists>m. snd (get_jobs_return r) = [LogError m])"
    by (cases r rule: poll_failed.cases)
      (auto simp: get_jobs_return_def get_jobs_body_def split: decoded.splits option.splits)
  have c: "fst (get_jobs_return (poll [])) = []" by (rule jobs_poll)
  from a b c show ?thesis by simp
qed

theorem get_jobs_never_raises_witness:
  "get_jobs_body (LaunchError ''No such file'') = Inl ''No such file''
   \<and> get_jobs_return (LaunchError ''No such file'')
      = ([], [LogError ''Failed to fetch jobs: No such file''])
   \<and> poll_failed (Exited 1 (Text ''slurm down'') (Object None))
   \<and> get_jobs_return (Exited 1 (Text ''slurm down'') (Object None))
      = ([], [LogError ''squeue error: slurm down''])
   \<and> poll_failed (Exited 0 (Text []) (Unparseable ''Expecting value''))
   \<and> get_jobs_return (Exited 0 (Text []) (Unparseable ''Expecting value''))
      = ([], [LogError ''Failed to fetch jobs: Expecting value''])"
  using get_jobs_never_raises [of "LaunchError ''No such file''" "''No such file''"]
    get_jobs_never_raises [of "Exited 1 (Text ''slurm down'') (Object None)" "[]"]
    get_jobs_never_raises [of "Exited 0 (Text []) (Unparseable ''Expecting value'')" "[]"]
  by (simp add: get_jobs_return_def get_jobs_body_def)

section \<open>Refresh cycles in flight\<close>

lemma filter_remove_at: "length (filter P (remove_at i xs)) \<le> length (filter P xs)"
proof -
  have s: "filter P xs = filter P (take i xs) @ filter P (drop i xs)"
    by (metis append_take_drop_id filter_append)
  have "drop i xs = [] \<or> (\<exists>x. drop i xs = x # drop (Suc i) xs)"
    by (cases "i < length xs") (auto simp: Cons_nth_drop_Suc [symmetric])
  then have "length (filter P (drop (Suc i) xs)) \<le> length (filter P (drop i xs))"
    by auto
  then have "length (filter P (take i xs) @ filter P (drop (Suc i) xs))
        \<le> length (filter P (take i xs) @ filter P (drop i xs))" by simp
  then show ?thesis unfolding remove_at_def s [symmetric] by simp
qed

lemma filter_list_update:
  "\<not> P y \<Longrightarrow> length (filter P (xs[i := y])) \<le> length (filter P xs)"
proof (induction xs arbitrary: i)
  case Nil
  then show ?case by simp
next
  case (Cons x xs)
  then show ?case by (cases i) (auto simp: le_SucI)
qed

lemma filter_absent: "x \<notin> set xs \<Longrightarrow> filter (\<lambda>w. w = x) xs = []"
  by (induction xs) auto

lemma refresh_workers_trigger:
  assumes "refresh_workers s \<le> 1"
  shows "refresh_workers (refresh_jobs pol s) \<le> 1"
proof (cases pol)
  case Drop_trigger
  show ?thesis
  proof (cases "Refresh_jobs \<in> set (workers s)")
    case True
    with Drop_trigger assms show ?thesis by (simp add: refresh_jobs_def)
  next
    case False
    then have "filter (\<lambda>w. w = Refresh_jobs) (workers s) = []" by (rule filter_absent)
    with Drop_trigger False show ?thesis
      by (simp add: refresh_jobs_def refresh_workers_def get_jobs_launch_def emit_def)
  qed
next
  case Cancel_group
  then show ?thesis
    by (simp add: refresh_jobs_def refresh_workers_def get_jobs_launch_def emit_def)
qed

lemma workers_refresh_resume: "workers (snd (refresh_jobs_async_resume r clock s)) = workers s"
  by (simp add: refresh_resume_unfold Let_def emit_def)

lemma refresh_workers_step:
  assumes "refresh_workers s \<le> 1"
  shows "refresh_workers (step pol e s) \<le> 1"
proof (cases e)
  case Trigger
  with refresh_workers_trigger [OF assms, of pol] show ?thesis by simp
next
  case Toggle
  show ?thesis
  proof (cases "cursor_row_key (table s)")
    case (Inl err)
    with Toggle assms show ?thesis by (simp add: action_toggle_select_def)
  next
    case (Inr k)
    let ?s = "s\<lparr>selected_jobs := (if k \<in> selected_jobs s then selected_jobs s - {k}
                                    else insert k (selected_jobs s))\<rparr>"
    have "refresh_workers ?s \<le> 1" using assms by (simp add: refresh_workers_def)
    then have "refresh_workers (refresh_jobs pol ?s) \<le> 1" by (rule refresh_workers_trigger)
    with Toggle Inr show ?thesis by (simp add: action_toggle_select_def)
  qed
next
  case (Kill ids)
  with assms show ?thesis by (simp add: do_kill_jobs_def refresh_workers_def emit_def)
next
  case (Squeue_done i r c)
  have "refresh_workers (finish i (refresh_jobs_async_resume r c s)) \<le> refresh_workers s"
    using filter_remove_at [of "\<lambda>w. w = Refresh_jobs" i "workers s"]
    by (simp add: finish_def Let_def refresh_workers_def workers_refresh_resume)
  with Squeue_done assms show ?thesis by (auto split: worker.splits)
next
  case (Scancel_done i r)
  have "\<And>ids. refresh_workers (do_kill_jobs_resume i ids r s) \<le> refresh_workers s"
    using filter_remove_at [of "\<lambda>w. w = Refresh_jobs" i "workers s"]
      filter_list_update [of "\<lambda>w. w = Refresh_jobs" _ "workers s" i]
    by (simp add: do_kill_jobs_resume_def Let_def refresh_workers_def get_jobs_launch_def
        emit_def split: prod.splits)
  with Scancel_done assms show ?thesis
    by (auto split: worker.splits intro: order_trans)
qed

lemma refresh_workers_run:
  "refresh_workers s \<le> 1 \<Longrightarrow> refresh_workers (run pol evs s) \<le> 1"
proof (induction evs arbitrary: s)
  case Nil
  then show ?case by (simp add: run_def)
next
  case (Cons e evs)
  from Cons.prems have "refresh_workers (step pol e s) \<le> 1" by (rule refresh_workers_step)
  from Cons.IH [OF this] show ?case by (simp add: run_def)
qed

lemma workers_on_mount: "workers (on_mount pol u) = [Refresh_jobs]"
  by (simp add: on_mount_def refresh_jobs_def get_jobs_launch_def emit_def init_def
      split: exclusive.splits)

text \<open>Without a kill, the workers are none or the one refresh.\<close>

lemma no_kill_step:
  assumes "workers s = [] \<or> workers s = [Refresh_jobs]" and "\<not> is_kill e"
  shows "workers (step pol e s) = [] \<or> workers (step pol e s) = [Refresh_jobs]"
proof (cases e)
  case Trigger
  with assms(1) show ?thesis
    by (auto simp: refresh_jobs_def get_jobs_launch_def emit_def split: exclusive.splits)
next
  case Toggle
  with assms(1) show ?thesis
    by (auto simp: action_toggle_select_def refresh_jobs_def get_jobs_launch_def emit_def
        split: exclusive.splits sum.splits)
next
  case (Kill ids)
  with assms(2) show ?thesis by simp
next
  case (Squeue_done i r c)
  with assms(1) show ?thesis
    by (auto simp: finish_def Let_def workers_refresh_resume remove_at_def)
next
  case (Scancel_done i r)
  with assms(1) show ?thesis by auto
qed

lemma no_kill_run:
  assumes "workers s = [] \<or> workers s = [Refresh_jobs]" and "\<forall>e \<in> set evs. \<not> is_kill e"
  shows "workers (run pol evs s) = [] \<or> workers (run pol evs s) = [Refresh_jobs]"
  using assms
proof (induction evs arbitrary: s)
  case Nil
  then show ?case by (simp add: run_def)
next
  case (Cons e evs)
  from Cons.prems have "workers (step pol e s) = [] \<or> workers (step pol e s) = [Refresh_jobs]"
    by (simp add: no_kill_step)
  moreover from Cons.prems have "\<forall>e \<in> set evs. \<not> is_kill e" by simp
  ultimately show ?case using Cons.IH [of "step pol e s"] by (simp add: run_def)
qed

text \<open>
  Through the exclusive entry alone: in every state reached from the start of the
  application, under either reading of the entry, at most one worker started through
  \<open>refresh_jobs\<close> is in flight; and as long as no \<open>do_kill_jobs\<close> worker is started, the
  workers that wait for a job query are at most one. Under the reading of the spec a
  trigger that arrives during a cycle changes nothing.
\<close>

lemma refresh_entry_single_flight:
  "refresh_workers (run pol evs (on_mount pol u)) \<le> 1
   \<and> ((\<forall>e \<in> set evs. \<not> is_kill e) \<longrightarrow> fetches_in_flight (run pol evs (on_mount pol u)) \<le> 1)"
proof -
  have "refresh_workers (on_mount pol u) \<le> 1"
    by (simp add: refresh_workers_def workers_on_mount)
  then have a: "refresh_workers (run pol evs (on_mount pol u)) \<le> 1" by (rule refresh_workers_run)
  have b: "(\<forall>e \<in> set evs. \<not> is_kill e) \<longrightarrow> fetches_in_flight (run pol evs (on_mount pol u)) \<le> 1"
  proof
    assume "\<forall>e \<in> set evs. \<not> is_kill e"
    with no_kill_run [of "on_mount pol u" evs pol] workers_on_mount [of pol u]
    have "workers (run pol evs (on_mount pol u)) = []
        \<or> workers (run pol evs (on_mount pol u)) = [Refresh_jobs]" by simp
    then show "fetches_in_flight (run pol evs (on_mount pol u)) \<le> 1"
      by (auto simp: fetches_in_flight_def)
  qed
  from a b show ?thesis by simp
qed

text \<open>The definitions a concrete sequence of events unfolds.\<close>

lemmas run_defs = run_def on_mount_def init_def refresh_jobs_def get_jobs_launch_def emit_def
  do_kill_jobs_def do_kill_jobs_resume_def cancel_jobs_return_def finish_def remove_at_def
  action_toggle_select_def squeue_cmd_def fetches_in_flight_def refresh_workers_def Let_def

lemma trigger_during_cycle_dropped:
  "Refresh_jobs \<in> set (workers s) \<Longrightarrow> step Drop_trigger Trigger s = s"
  by (simp add: refresh_jobs_def)

text \<open>The state after the initial load has returned two jobs.\<close>

lemma first_poll:
  "run pol [Squeue_done 0 (poll [j_pend, j_run]) at_1000] (on_mount pol ''u'')
   = \<lparr>user = ''u'', selected_jobs = {},
      table = \<lparr>rows = [(''2'', [PStr ''2'', PStr [], PStr [], PStr ''PENDING'', PStr ''0:00'',
                                PStr ''(Resources)'']),
                       (''3'', [PStr ''3'', PStr [], PStr [], PStr ''RUNNING'', PStr ''1:05'',
                                PStr ''node01''])],
               cursor_row = 0\<rparr>,
      workers = [], effects = [Exec [''squeue'', ''-u'', ''u'', ''--json'']], failures = []\<rparr>"
  by (cases pol) (simp_all add: run_defs eval_defs)

text \<open>
  Claim C1. The claim is that at most one job query is in flight at any time, also
  while the reconciliation forced by a cancel is running. The code breaks it on the kill
  path: the table shows two jobs with the cursor on job 2; the timer starts a refresh,
  and while its job query is out a kill of job 2 is confirmed and its cancel command
  succeeds; \<open>do_kill_jobs\<close> then calls \<open>refresh_jobs_async\<close> itself, past the exclusive
  entry that every other caller goes through, and two job queries are in flight, under
  either reading of the entry.
\<close>

theorem two_fetches_in_flight:
  "cursor_row_key (table (run Drop_trigger [Squeue_done 0 (poll [j_pend, j_run]) at_1000, Trigger]
        (on_mount Drop_trigger ''u''))) = Inr ''2''
   \<and> workers (run Drop_trigger
        [Squeue_done 0 (poll [j_pend, j_run]) at_1000, Trigger, Kill [''2''],
         Scancel_done 1 (Exited 0 (Text []) ())]
        (on_mount Drop_trigger ''u'')) = [Refresh_jobs, Kill_refresh [''2'']]
   \<and> fetches_in_flight (run Drop_trigger
        [Squeue_done 0 (poll [j_pend, j_run]) at_1000, Trigger, Kill [''2''],
         Scancel_done 1 (Exited 0 (Text []) ())]
        (on_mount Drop_trigger ''u'')) = 2
   \<and> fetches_in_flight (run Cancel_group
        [Squeue_done 0 (poll [j_pend, j_run]) at_1000, Trigger, Kill [''2''],
         Scancel_done 1 (Exited 0 (Text []) ())]
        (on_mount Cancel_group ''u'')) = 2
   \<and> effects (run Drop_trigger
        [Squeue_done 0 (poll [j_pend, j_run]) at_1000, Trigger, Kill [''2''],
         Scancel_done 1 (Exited 0 (Text []) ())]
        (on_mount Drop_trigger ''u''))
      = [Exec [''squeue'', ''-u'', ''u'', ''--json''], Exec [''squeue'', ''-u'', ''u'', ''--json''],
         Exec [''scancel'', ''2''], Notify ''Cancelled 1 jobs.'' Information,
         Exec [''squeue'', ''-u'', ''u'', ''--json'']]"
proof -
  have split2: "\<And>pol e1 e2 e3 e4 s. run pol [e1, e2, e3, e4] s = run pol [e2, e3, e4] (run pol [e1] s)"
    "\<And>pol e1 e2 s. run pol [e1, e2] s = run pol [e2] (run pol [e1] s)"
    by (simp_all add: run_def)
  show ?thesis
    unfolding split2 first_poll
    by (simp add: run_defs cursor_row_key_def str_int_def str_nat.simps digit_char_def)
qed

section \<open>Cancelling and toggling\<close>





text \<open>The return of the job query to a worker that waits for it.\<close>

lemma squeue_done_step:
  assumes "i < length (workers s)" and "fetching (workers s ! i)"
  shows "step pol (Squeue_done i r clock) s = finish i (refresh_jobs_async_resume r clock s)"
  using assms by (cases "workers s ! i") simp_all

lemma effects_refresh_resume:
  "effects (snd (refresh_jobs_async_resume r clock s)) = effects s @ snd (get_jobs_return r)"
  by (simp add: refresh_resume_unfold Let_def emit_def)

lemma failures_refresh_resume:
  "failures (snd (refresh_jobs_async_resume r clock s)) = failures s"
  by (simp add: refresh_resume_unfold Let_def emit_def)

lemma squeue_done_merges:
  assumes "i < length (workers s)" and "fetching (workers s ! i)"
    and "well_formed (fst (get_jobs_return r))"
  shows "rows (table (step pol (Squeue_done i r clock) s))
           = map (job_row (selected_jobs s)) (filter survives (stamp clock (fst (get_jobs_return r))))"
    and "selected_jobs (step pol (Squeue_done i r clock) s) = selected_jobs s"
    and "failures (step pol (Squeue_done i r clock) s) = failures s"
    and "workers (step pol (Squeue_done i r clock) s) = remove_at i (workers s)"
    and "effects (step pol (Squeue_done i r clock) s) = effects s @ snd (get_jobs_return r)"
proof -
  have st: "step pol (Squeue_done i r clock) s = finish i (refresh_jobs_async_resume r clock s)"
    using assms(1,2) by (rule squeue_done_step)
  have n: "fst (refresh_jobs_async_resume r clock s) = None"
    using assms(3) by (rule refresh_completes)
  show "rows (table (step pol (Squeue_done i r clock) s))
           = map (job_row (selected_jobs s)) (filter survives (stamp clock (fst (get_jobs_return r))))"
    unfolding st using refresh_rows [OF assms(3), of clock s] by (simp add: finish_def Let_def)
  show "selected_jobs (step pol (Squeue_done i r clock) s) = selected_jobs s"
    unfolding st by (simp add: finish_def Let_def refresh_selected)
  show "failures (step pol (Squeue_done i r clock) s) = failures s"
    unfolding st using n by (simp add: finish_def Let_def failures_refresh_resume)
  show "workers (step pol (Squeue_done i r clock) s) = remove_at i (workers s)"
    unfolding st by (simp add: finish_def Let_def workers_refresh_resume)
  show "effects (step pol (Squeue_done i r clock) s) = effects s @ snd (get_jobs_return r)"
    unfolding st by (simp add: finish_def Let_def effects_refresh_resume)
qed







lemma showing_fields:
  "workers (showing jobs) = []" "effects (showing jobs) = []" "user (showing jobs) = ''u''"
  "selected_jobs (showing jobs) = {}" "failures (showing jobs) = []"
  by (simp_all add: showing_def refresh_resume_unfold Let_def emit_def init_def poll_def
      get_jobs_return_def get_jobs_body_def)

lemma table_showing_pend_run:
  "table (showing [j_pend, j_run])
   = \<lparr>rows = [(''2'', [PStr ''2'', PStr [], PStr [], PStr ''PENDING'', PStr ''0:00'',
                       PStr ''(Resources)'']),
              (''3'', [PStr ''3'', PStr [], PStr [], PStr ''RUNNING'', PStr ''1:05'',
                       PStr ''node01''])],
      cursor_row = 0\<rparr>"
  by (simp add: eval_defs)


lemma keys_of_rows:
  assumes "rows t = map (job_row sel) (filter survives (stamp clock jobs))"
  shows "map fst (rows t) = map job_key (visible jobs)"
  unfolding assms by (rule keys_job_rows)


lemma jobs_failed_poll: "get_jobs_return (LaunchError ''gone'') = ([], [LogError ''Failed to fetch jobs: gone''])"
  by (simp add: get_jobs_return_def get_jobs_body_def)


lemma well_formed_Nil: "well_formed []"
  by (simp add: well_formed_def visible_def)


lemma well_formed_pend_run: "well_formed [j_pend, j_run]"
  by (simp add: eval_defs)



lemma refresh_jobs_fields:
  "selected_jobs (refresh_jobs pol s) = selected_jobs s"
  "table (refresh_jobs pol s) = table s"
  "user (refresh_jobs pol s) = user s"
  "Refresh_jobs \<in> set (workers (refresh_jobs pol s))"
  by (simp_all add: refresh_jobs_def get_jobs_launch_def emit_def split: exclusive.splits)

lemma refresh_jobs_effects:
  "Refresh_jobs \<notin> set (workers s) \<Longrightarrow>
     effects (refresh_jobs pol s) = effects s @ [Exec (squeue_cmd (user s))]"
  by (simp add: refresh_jobs_def get_jobs_launch_def emit_def split: exclusive.splits)

lemma toggle_unfold:
  assumes "cursor_row_key (table s) = Inr k"
  shows "action_toggle_select pol s
         = refresh_jobs pol (s\<lparr>selected_jobs :=
             (if k \<in> selected_jobs s then selected_jobs s - {k} else insert k (selected_jobs s))\<rparr>)"
  using assms by (simp add: action_toggle_select_def)

text \<open>
  Claim C6, as the code has it. With a row under the cursor, the toggle adds the row's
  identifier to the selection set if it is absent and removes it if it is present, so
  that two toggles restore the set; the table is left as it is; and the toggle calls
  \<open>refresh_jobs\<close>: a refresh worker is in flight afterwards, and unless one was in
  flight already a new job query has been started. When the job query returns to that
  worker, for a snapshot of the spec's data model, the table is rebuilt from what the
  query returned (from nothing, if the poll failed): its rows are those of the visible
  jobs, and the id cell of every row is the identifier as displayed under the toggled
  selection set, marked exactly when the identifier is in it.
\<close>

theorem toggle_select_refreshes:
  assumes "cursor_row_key (table s) = Inr k"
  shows "selected_jobs (action_toggle_select pol s)
           = (if k \<in> selected_jobs s then selected_jobs s - {k} else insert k (selected_jobs s))
     \<and> table (action_toggle_select pol s) = table s
     \<and> selected_jobs (action_toggle_select pol (action_toggle_select pol s)) = selected_jobs s
     \<and> Refresh_jobs \<in> set (workers (action_toggle_select pol s))
     \<and> (Refresh_jobs \<notin> set (workers s) \<longrightarrow>
          effects (action_toggle_select pol s) = effects s @ [Exec (squeue_cmd (user s))])
     \<and> (i < length (workers (action_toggle_select pol s))
          \<and> workers (action_toggle_select pol s) ! i = Refresh_jobs
          \<and> well_formed (fst (get_jobs_return r))
        \<longrightarrow> rows (table (step pol (Squeue_done i r clock) (action_toggle_select pol s)))
              = map (job_row (if k \<in> selected_jobs s then selected_jobs s - {k}
                              else insert k (selected_jobs s)))
                  (filter survives (stamp clock (fst (get_jobs_return r))))
          \<and> map fst (rows (table (step pol (Squeue_done i r clock) (action_toggle_select pol s))))
              = map job_key (visible (fst (get_jobs_return r)))
          \<and> (\<forall>row \<in> set (rows (table (step pol (Squeue_done i r clock)
                                             (action_toggle_select pol s)))).
                row_id_cell row
                  = PStr (job_id_display (if k \<in> selected_jobs s then selected_jobs s - {k}
                                          else insert k (selected_jobs s)) (fst row)))
          \<and> selected_jobs (step pol (Squeue_done i r clock) (action_toggle_select pol s))
              = (if k \<in> selected_jobs s then selected_jobs s - {k}
                 else insert k (selected_jobs s)))"
proof -
  let ?sel = "if k \<in> selected_jobs s then selected_jobs s - {k} else insert k (selected_jobs s)"
  define s1 where "s1 = action_toggle_select pol s"
  have t: "s1 = refresh_jobs pol (s\<lparr>selected_jobs := ?sel\<rparr>)"
    unfolding s1_def using assms by (rule toggle_unfold)
  have a: "selected_jobs s1 = ?sel"
    unfolding t by (simp add: refresh_jobs_fields)
  have b: "table s1 = table s"
    unfolding t by (simp add: refresh_jobs_fields)
  have "cursor_row_key (table s1) = Inr k"
    using assms b by simp
  then have "action_toggle_select pol s1
      = refresh_jobs pol (s1\<lparr>selected_jobs :=
             (if k \<in> selected_jobs s1 then selected_jobs s1 - {k} else insert k (selected_jobs s1))\<rparr>)"
    by (rule toggle_unfold)
  then have "selected_jobs (action_toggle_select pol s1)
      = (if k \<in> selected_jobs s1 then selected_jobs s1 - {k} else insert k (selected_jobs s1))"
    by (simp add: refresh_jobs_fields)
  then have c: "selected_jobs (action_toggle_select pol s1) = selected_jobs s"
    unfolding a by auto
  have d: "Refresh_jobs \<in> set (workers s1)"
    unfolding t by (rule refresh_jobs_fields)
  have e: "Refresh_jobs \<notin> set (workers s) \<longrightarrow>
          effects s1 = effects s @ [Exec (squeue_cmd (user s))]"
    unfolding t using refresh_jobs_effects [of "s\<lparr>selected_jobs := ?sel\<rparr>" pol] by simp
  have f: "i < length (workers s1) \<and> workers s1 ! i = Refresh_jobs
          \<and> well_formed (fst (get_jobs_return r))
        \<longrightarrow> rows (table (step pol (Squeue_done i r clock) s1))
              = map (job_row ?sel) (filter survives (stamp clock (fst (get_jobs_return r))))
          \<and> map fst (rows (table (step pol (Squeue_done i r clock) s1)))
              = map job_key (visible (fst (get_jobs_return r)))
          \<and> (\<forall>row \<in> set (rows (table (step pol (Squeue_done i r clock) s1))).
                row_id_cell row = PStr (job_id_display ?sel (fst row)))
          \<and> selected_jobs (step pol (Squeue_done i r clock) s1) = ?sel"
  proof
    assume "i < length (workers s1) \<and> workers s1 ! i = Refresh_jobs
          \<and> well_formed (fst (get_jobs_return r))"
    then have w: "i < length (workers s1)" "fetching (workers s1 ! i)"
      "well_formed (fst (get_jobs_return r))" by simp_all
    note m = squeue_done_merges [OF w, of pol clock]
    have r1: "rows (table (step pol (Squeue_done i r clock) s1))
              = map (job_row ?sel) (filter survives (stamp clock (fst (get_jobs_return r))))"
      using m(1) unfolding a .
    from r1 have r2: "map fst (rows (table (step pol (Squeue_done i r clock) s1)))
              = map job_key (visible (fst (get_jobs_return r)))" by (rule keys_of_rows)
    have r3: "\<forall>row \<in> set (rows (table (step pol (Squeue_done i r clock) s1))).
                row_id_cell row = PStr (job_id_display ?sel (fst row))"
      unfolding r1 by (auto simp: row_id_cell_job_row fst_job_row)
    have r4: "selected_jobs (step pol (Squeue_done i r clock) s1) = ?sel"
      using m(2) unfolding a .
    from r1 r2 r3 r4 show "rows (table (step pol (Squeue_done i r clock) s1))
              = map (job_row ?sel) (filter survives (stamp clock (fst (get_jobs_return r))))
          \<and> map fst (rows (table (step pol (Squeue_done i r clock) s1)))
              = map job_key (visible (fst (get_jobs_return r)))
          \<and> (\<forall>row \<in> set (rows (table (step pol (Squeue_done i r clock) s1))).
                row_id_cell row = PStr (job_id_display ?sel (fst row)))
          \<and> selected_jobs (step pol (Squeue_done i r clock) s1) = ?sel"
      by blast
  qed
  from a b c d e f show ?thesis unfolding s1_def by blast
qed

theorem toggle_select_refreshes_witness:
  "cursor_row_key (table (showing [j_pend, j_run])) = Inr ''2''
   \<and> Refresh_jobs \<notin> set (workers (showing [j_pend, j_run]))
   \<and> selected_jobs (action_toggle_select Drop_trigger (showing [j_pend, j_run])) = {''2''}
   \<and> selected_jobs (action_toggle_select Drop_trigger
        (action_toggle_select Drop_trigger (showing [j_pend, j_run]))) = {}
   \<and> effects (action_toggle_select Drop_trigger (showing [j_pend, j_run]))
      = [Exec [''squeue'', ''-u'', ''u'', ''--json'']]
   \<and> workers (action_toggle_select Drop_trigger (showing [j_pend, j_run])) = [Refresh_jobs]
   \<and> well_formed (fst (get_jobs_return (poll [j_pend, j_run])))
   \<and> table (step Drop_trigger (Squeue_done 0 (poll [j_pend, j_run]) at_1000)
              (action_toggle_select Drop_trigger (showing [j_pend, j_run])))
      = \<lparr>rows = [(''2'', [PStr ''[bold green]* 2[/]'', PStr [], PStr [], PStr ''PENDING'',
                           PStr ''0:00'', PStr ''(Resources)'']),
                 (''3'', [PStr ''3'', PStr [], PStr [], PStr ''RUNNING'', PStr ''1:05'',
                           PStr ''node01''])],
         cursor_row = 0\<rparr>
   \<and> well_formed (fst (get_jobs_return (LaunchError ''gone'')))
   \<and> rows (table (step Drop_trigger (Squeue_done 0 (LaunchError ''gone'') at_1000)
              (action_toggle_select Drop_trigger (showing [j_pend, j_run])))) = []"
proof -
  have c: "cursor_row_key (table (showing [j_pend, j_run])) = Inr ''2''"
    by (simp add: table_showing_pend_run cursor_row_key_def)
  have s1: "action_toggle_select Drop_trigger (showing [j_pend, j_run])
      = (showing [j_pend, j_run])\<lparr>selected_jobs := {''2''}, workers := [Refresh_jobs],
           effects := [Exec [''squeue'', ''-u'', ''u'', ''--json'']]\<rparr>"
    using c by (simp add: action_toggle_select_def refresh_jobs_def get_jobs_launch_def emit_def
        squeue_cmd_def showing_fields)
  have w: "well_formed (fst (get_jobs_return (poll [j_pend, j_run])))"
    by (simp add: jobs_poll well_formed_pend_run)
  have w0: "well_formed (fst (get_jobs_return (LaunchError ''gone'')))"
    by (simp add: jobs_failed_poll well_formed_Nil)
  have m: "table (step Drop_trigger (Squeue_done 0 (poll [j_pend, j_run]) at_1000)
              (action_toggle_select Drop_trigger (showing [j_pend, j_run])))
      = \<lparr>rows = [(''2'', [PStr ''[bold green]* 2[/]'', PStr [], PStr [], PStr ''PENDING'',
                           PStr ''0:00'', PStr ''(Resources)'']),
                 (''3'', [PStr ''3'', PStr [], PStr [], PStr ''RUNNING'', PStr ''1:05'',
                           PStr ''node01''])],
         cursor_row = 0\<rparr>"
    unfolding s1 by (simp add: finish_def table_showing_pend_run eval_defs)
  have m0: "rows (table (step Drop_trigger (Squeue_done 0 (LaunchError ''gone'') at_1000)
              (action_toggle_select Drop_trigger (showing [j_pend, j_run])))) = []"
    unfolding s1 by (simp add: finish_def table_showing_pend_run eval_defs)
  from toggle_select_refreshes [OF c, where pol=Drop_trigger and i=0
      and r="poll [j_pend, j_run]" and clock=at_1000]
    toggle_select_refreshes [OF c, where pol=Drop_trigger and i=0
      and r="LaunchError ''gone''" and clock=at_1000]
    c s1 w w0 m m0
  show ?thesis by (simp add: showing_fields)
qed

text \<open>
  Claim C6 as stated fails where it says that the re-render fetches nothing: with no
  worker in flight, one toggle starts the job query.
\<close>

theorem toggle_select_fetches:
  "effects (showing [j_pend, j_run]) = []
   \<and> effects (action_toggle_select Drop_trigger (showing [j_pend, j_run]))
      = [Exec [''squeue'', ''-u'', ''u'', ''--json'']]
   \<and> effects (action_toggle_select Cancel_group (showing [j_pend, j_run]))
      = [Exec [''squeue'', ''-u'', ''u'', ''--json'']]
   \<and> workers (action_toggle_select Drop_trigger (showing [j_pend, j_run])) = [Refresh_jobs]"
  by (simp add: action_toggle_select_def table_showing_pend_run cursor_row_key_def
      refresh_jobs_def get_jobs_launch_def emit_def squeue_cmd_def showing_fields)

end
